theory Spec2Isabelle
  imports Complex_Main "HOL-Library.Word"
begin

section \<open>The loop buffer of \<^verbatim>\<open>loopbuffer.h\<close>\<close>

text \<open>
  \<^verbatim>\<open>LoopBuffer<T, max_size>\<close> is a fixed-capacity sample buffer with a write cursor, a read
  cursor, a logical length and a fractional accumulator.

  \<^item> \<^verbatim>\<open>size_t\<close> is a 32-bit unsigned word (the Daisy target is a 32-bit ARM core); \<open>+\<close>,
    \<open>-\<close> wrap around, \<open>mod\<close> and the comparisons are unsigned.
  \<^item> \<^verbatim>\<open>int\<close> and \<^verbatim>\<open>int32_t\<close> are 32-bit two's complement values.  Arithmetic on them is
    done on the integers they denote and a result outside the 32-bit range (undefined
    behaviour in C++) is the error \<open>IntOverflow\<close>.
  \<^item> \<^verbatim>\<open>float\<close> is IEEE binary32.  A sample of a float buffer, and a float that a function
    returns, is a value of the type \<open>float\<close> below: a finite number, an infinity or NaN.
    A float argument and the member \<^verbatim>\<open>frac_\<close> are finite and are the real numbers they
    denote.  Every float sum, difference, product and quotient and every conversion of
    an integer to a float is rounded to the nearest float, ties to even (\<open>round_real\<close>);
    truncation to an integer and, in \<^verbatim>\<open>Setlength\<close>, subtracting the integer part are exact
    on floats.  The sign of a zero is not modelled.  A conversion of a float to an
    integer type that cannot hold it is the error \<open>FloatConv\<close>.
  \<^item> The array \<^verbatim>\<open>T line_[max_size]\<close> is a list; an access outside it is the error
    \<open>OutOfBounds\<close>, a remainder by zero the error \<open>DivByZero\<close>.
  \<^item> The members \<^verbatim>\<open>frac_\<close>, \<^verbatim>\<open>write_ptr_\<close>, \<^verbatim>\<open>read_ptr_\<close>, \<^verbatim>\<open>length_\<close>, \<^verbatim>\<open>line_\<close> carry
    the suffix \<open>_m\<close> here, since a name cannot end in an underscore.
  \<^item> The template parameter \<^verbatim>\<open>max_size\<close> is the first argument of the functions that
    use it.
\<close>

datatype error = OutOfBounds | DivByZero | IntOverflow | FloatConv

type_synonym size_t = "32 word"

type_synonym c_int = "32 word"

record 'a LoopBuffer =
  frac_m :: real
  write_ptr_m :: size_t
  read_ptr_m :: size_t
  length_m :: size_t
  line_m :: "'a list"

text \<open>The array has \<^verbatim>\<open>max_size\<close> slots: the well-formedness of a buffer object.\<close>

definition wf_buffer :: "size_t \<Rightarrow> 'a LoopBuffer \<Rightarrow> bool" where
  "wf_buffer max_size s \<longleftrightarrow> length (line_m s) = unat max_size"

subsection \<open>Conversions\<close>

text \<open>The values of a 32-bit signed integer.\<close>

definition int_ok :: "int \<Rightarrow> bool" where
  "int_ok k \<longleftrightarrow> - (2 ^ 31) \<le> k \<and> k < 2 ^ 31"

text \<open>\<^verbatim>\<open>static_cast<int32_t>(x)\<close> on a float: rounding towards zero.\<close>

definition trunc :: "real \<Rightarrow> int" where
  "trunc x = (if 0 \<le> x then \<lfloor>x\<rfloor> else - \<lfloor>- x\<rfloor>)"

text \<open>\<^verbatim>\<open>(size_t) x\<close> on a float: rounding towards zero, into the values of \<^verbatim>\<open>size_t\<close>.\<close>

definition size_of_float :: "real \<Rightarrow> error + size_t" where
  "size_of_float x =
     (if 0 \<le> trunc x \<and> trunc x < 2 ^ 32 then Inr (word_of_int (trunc x)) else Inl FloatConv)"

text \<open>\<^verbatim>\<open>a % b\<close> on \<^verbatim>\<open>size_t\<close>.\<close>

definition size_mod :: "size_t \<Rightarrow> size_t \<Rightarrow> error + size_t" where
  "size_mod a b = (if b = 0 then Inl DivByZero else Inr (a mod b))"

text \<open>Sequencing: the first error ends the call.\<close>

definition bind_err :: "error + 'a \<Rightarrow> ('a \<Rightarrow> error + 'b) \<Rightarrow> error + 'b" where
  "bind_err m f = (case m of Inl e \<Rightarrow> Inl e | Inr x \<Rightarrow> f x)"

subsection \<open>Floats\<close>

text \<open>The values of a float.\<close>

datatype float = Finite real | PlusInf | MinusInf | NaN

text \<open>Rounding a real to the nearest integer, ties to even.\<close>

definition round_even :: "real \<Rightarrow> int" where
  "round_even r =
     (let f = \<lfloor>r\<rfloor> in
      if r - real_of_int f < 1 / 2 then f
      else if 1 / 2 < r - real_of_int f then f + 1
      else if even f then f else f + 1)"

text \<open>
  The exponent of the unit in the last place of \<open>x\<close>, searched upwards from \<open>e\<close>: the least
  exponent from \<open>e\<close> on with \<open>\<bar>x\<bar> < 2 ^ (e + 24)\<close>, and at most 104.  Binary32 has 24 bits of
  significand, the unit of its subnormal numbers is \<open>2 ^ -149\<close>, and the unit of its largest
  numbers is \<open>2 ^ 104\<close>.
\<close>

function ulp_exp :: "int \<Rightarrow> real \<Rightarrow> int" where
  "ulp_exp e x = (if e < 104 \<and> \<not> \<bar>x\<bar> < 2 powi (e + 24) then ulp_exp (e + 1) x else e)"
  by pat_completeness auto
termination
  by (relation "measure (\<lambda>(e, x). nat (104 - e))") auto

declare ulp_exp.simps [simp del]

text \<open>The nearest multiple of the unit in the last place; beyond the largest float this is
  at least \<open>2 ^ 128\<close> in magnitude.\<close>

definition round_real :: "real \<Rightarrow> real" where
  "round_real x =
     (let e = ulp_exp (- 149) x in real_of_int (round_even (x / 2 powi e)) * 2 powi e)"

text \<open>The float that an exact result \<open>x\<close> becomes: an infinity on overflow.\<close>

definition round_float :: "real \<Rightarrow> float" where
  "round_float x =
     (let y = round_real x in
      if 2 ^ 128 \<le> y then PlusInf else if y \<le> - (2 ^ 128) then MinusInf else Finite y)"

fun fneg :: "float \<Rightarrow> float" where
  "fneg (Finite a) = Finite (- a)"
| "fneg PlusInf = MinusInf"
| "fneg MinusInf = PlusInf"
| "fneg NaN = NaN"

fun fadd :: "float \<Rightarrow> float \<Rightarrow> float" where
  "fadd (Finite a) (Finite b) = round_float (a + b)"
| "fadd NaN y = NaN"
| "fadd x NaN = NaN"
| "fadd PlusInf MinusInf = NaN"
| "fadd MinusInf PlusInf = NaN"
| "fadd PlusInf y = PlusInf"
| "fadd x PlusInf = PlusInf"
| "fadd MinusInf y = MinusInf"
| "fadd x MinusInf = MinusInf"

definition fsub :: "float \<Rightarrow> float \<Rightarrow> float" where
  "fsub x y = fadd x (fneg y)"

text \<open>The product with an infinity: NaN for 0, else the infinity with the sign of the product.\<close>

definition inf_times :: "bool \<Rightarrow> real \<Rightarrow> float" where
  "inf_times positive a =
     (if a = 0 then NaN else if (0 < a) = positive then PlusInf else MinusInf)"

fun fmul :: "float \<Rightarrow> float \<Rightarrow> float" where
  "fmul (Finite a) (Finite b) = round_float (a * b)"
| "fmul NaN y = NaN"
| "fmul x NaN = NaN"
| "fmul PlusInf (Finite b) = inf_times True b"
| "fmul MinusInf (Finite b) = inf_times False b"
| "fmul (Finite a) PlusInf = inf_times True a"
| "fmul (Finite a) MinusInf = inf_times False a"
| "fmul PlusInf PlusInf = PlusInf"
| "fmul MinusInf MinusInf = PlusInf"
| "fmul PlusInf MinusInf = MinusInf"
| "fmul MinusInf PlusInf = MinusInf"

text \<open>\<^verbatim>\<open>T(0)\<close> and \<^verbatim>\<open>0.f\<close>.\<close>

instantiation float :: zero
begin

definition zero_float :: float where
  "zero_float = Finite 0"

instance ..

end

text \<open>The conversions \<^verbatim>\<open>(float) i\<close> of an \<^verbatim>\<open>int\<close> and of a \<^verbatim>\<open>size_t\<close>: finite floats.\<close>

definition float_of_int :: "int \<Rightarrow> real" where
  "float_of_int i = round_real (real_of_int i)"

definition float_of_size :: "size_t \<Rightarrow> real" where
  "float_of_size n = round_real (real (unat n))"



subsection \<open>Init, Reset, lengths and positions\<close>

text \<open>The loop \<^verbatim>\<open>for(size_t i = 0; i < max_size; i++) line_[i] = T(0);\<close> over the
  \<^verbatim>\<open>max_size\<close> slots of the array.\<close>

definition clear_line :: "size_t \<Rightarrow> 'a::zero list \<Rightarrow> 'a list" where
  "clear_line max_size l = fold (\<lambda>i l. l[i := 0]) [0..<unat max_size] l"

definition Reset :: "'a LoopBuffer \<Rightarrow> 'a LoopBuffer" where
  "Reset s = s\<lparr>write_ptr_m := 0, read_ptr_m := 0, length_m := 1, frac_m := 0\<rparr>"

definition Init :: "size_t \<Rightarrow> 'a::zero LoopBuffer \<Rightarrow> 'a LoopBuffer" where
  "Init max_size s = Reset (s\<lparr>line_m := clear_line max_size (line_m s)\<rparr>)"

definition SetLength :: "size_t \<Rightarrow> size_t \<Rightarrow> 'a LoopBuffer \<Rightarrow> 'a LoopBuffer" where
  "SetLength max_size len s =
     s\<lparr>frac_m := 0, length_m := (if len < max_size then len else max_size)\<rparr>"

text \<open>
  \<^verbatim>\<open>Setlength(float length)\<close>.  Both branches of the conditional expression have the type
  \<^verbatim>\<open>size_t\<close>, so \<^verbatim>\<open>int_length\<close> is converted to \<^verbatim>\<open>size_t\<close> there as well.
\<close>

definition Setlength :: "size_t \<Rightarrow> real \<Rightarrow> 'a LoopBuffer \<Rightarrow> error + 'a LoopBuffer" where
  "Setlength max_size len s =
     (let int_length = trunc len in
      if \<not> int_ok int_length then Inl FloatConv
      else Inr (s\<lparr>frac_m := len - real_of_int int_length,
                  length_m := (if (word_of_int int_length :: size_t) < max_size
                               then word_of_int int_length else max_size - 1)\<rparr>))"

definition GetLength :: "'a LoopBuffer \<Rightarrow> float" where
  "GetLength s = fadd (Finite (float_of_size (length_m s))) (Finite (frac_m s))"

definition SetReadPosition :: "size_t \<Rightarrow> 'a LoopBuffer \<Rightarrow> 'a LoopBuffer" where
  "SetReadPosition position s =
     (let s1 = s\<lparr>read_ptr_m := (if position \<ge> length_m s then position else length_m s - 1)\<rparr>
      in s1\<lparr>read_ptr_m := (if read_ptr_m s1 < 0 then 0 else read_ptr_m s1)\<rparr>)"

definition GetReadPosition :: "'a LoopBuffer \<Rightarrow> size_t" where
  "GetReadPosition s = read_ptr_m s"

definition GetWritePosition :: "'a LoopBuffer \<Rightarrow> size_t" where
  "GetWritePosition s = write_ptr_m s"

subsection \<open>Write and the plain reads\<close>

text \<open>Reading \<^verbatim>\<open>line_[i]\<close> for a \<^verbatim>\<open>size_t\<close> index.\<close>

definition line_at :: "'a list \<Rightarrow> size_t \<Rightarrow> error + 'a" where
  "line_at l i = (if unat i < length l then Inr (l ! unat i) else Inl OutOfBounds)"

definition Write :: "size_t \<Rightarrow> 'a \<Rightarrow> 'a LoopBuffer \<Rightarrow> error + 'a LoopBuffer" where
  "Write max_size sample s =
     (if \<not> unat (write_ptr_m s) < length (line_m s) then Inl OutOfBounds
      else if max_size = 0 then Inl DivByZero
      else
        let s1 = s\<lparr>line_m := (line_m s)[unat (write_ptr_m s) := sample]\<rparr>;
            s2 = s1\<lparr>write_ptr_m := (write_ptr_m s1 + 1) mod max_size\<rparr>
        in Inr (if write_ptr_m s2 \<ge> length_m s2
                then s2\<lparr>length_m := write_ptr_m s2 + 1\<rparr> else s2))"

definition Read :: "'a LoopBuffer \<Rightarrow> error + ('a \<times> 'a LoopBuffer)" where
  "Read s =
     (if length_m s = 0 then Inl DivByZero
      else case line_at (line_m s) (read_ptr_m s mod length_m s) of
             Inl e \<Rightarrow> Inl e
           | Inr a \<Rightarrow> Inr (a, s\<lparr>read_ptr_m := (read_ptr_m s + 1) mod length_m s\<rparr>))"

definition ReadOnce :: "'a::zero LoopBuffer \<Rightarrow> error + ('a \<times> 'a LoopBuffer)" where
  "ReadOnce s =
     (case (if read_ptr_m s < length_m s
            then line_at (line_m s) (read_ptr_m s mod length_m s) else Inr 0) of
        Inl e \<Rightarrow> Inl e
      | Inr a \<Rightarrow>
          Inr (a, s\<lparr>read_ptr_m := (if read_ptr_m s < length_m s - 1
                                    then read_ptr_m s + 1 else read_ptr_m s)\<rparr>))"

text \<open>
  \<^verbatim>\<open>ReadSpeed(float speed)\<close> on a buffer of floats.  \<^verbatim>\<open>(int)floor(speed + frac_)\<close> is converted
  to \<^verbatim>\<open>size_t\<close> for the addition; the test \<^verbatim>\<open>read_ptr_ < 0\<close> is on the unsigned cursor.  A sum
  \<^verbatim>\<open>speed + frac_\<close> that overflows is not in the range of \<^verbatim>\<open>int\<close>.
\<close>

definition ReadSpeed :: "real \<Rightarrow> float LoopBuffer \<Rightarrow> error + (float \<times> float LoopBuffer)" where
  "ReadSpeed speed s =
     (if \<not> int_ok \<lfloor>round_real (speed + frac_m s)\<rfloor> then Inl FloatConv
      else if length_m s = 0 then Inl DivByZero
      else
        let s1 = s\<lparr>read_ptr_m :=
                    (read_ptr_m s + word_of_int \<lfloor>round_real (speed + frac_m s)\<rfloor>) mod length_m s\<rparr>;
            s2 = (if read_ptr_m s1 < 0 then s1\<lparr>read_ptr_m := length_m s1 - 1\<rparr> else s1)
        in if \<not> int_ok (trunc (round_real (speed + frac_m s2))) then Inl FloatConv
           else
             let s3 = s2\<lparr>frac_m :=
                         round_real (round_real (speed + frac_m s2)
                           - float_of_int (trunc (round_real (speed + frac_m s2))))\<rparr>
             in case line_at (line_m s3) (read_ptr_m s3 mod length_m s3) of
                  Inl e \<Rightarrow> Inl e
                | Inr a \<Rightarrow>
                    (case line_at (line_m s3) ((read_ptr_m s3 + 1) mod length_m s3) of
                       Inl e \<Rightarrow> Inl e
                     | Inr b \<Rightarrow> Inr (fadd a (fmul (fsub b a) (Finite (frac_m s3))), s3)))"

subsection \<open>The reads with a clip window\<close>

text \<open>
  The overloads of \<^verbatim>\<open>Read\<close> with arguments have names of their own here.  In the product
  of a float and the length, the length is converted to a float.
\<close>

text \<open>\<^verbatim>\<open>Read(float clipEnd, size_t minClip)\<close>\<close>

definition Read_clip :: "real \<Rightarrow> size_t \<Rightarrow> 'a LoopBuffer \<Rightarrow> error + ('a \<times> 'a LoopBuffer)" where
  "Read_clip clipEnd minClip s =
     bind_err (size_of_float (round_real (clipEnd * float_of_size (length_m s)))) (\<lambda>newEnd0.
       let newEnd = (if newEnd0 < minClip then minClip else newEnd0) in
       bind_err (size_mod (read_ptr_m s) newEnd) (\<lambda>i.
       bind_err (line_at (line_m s) i) (\<lambda>a.
       Inr (a, s\<lparr>read_ptr_m := (read_ptr_m s + 1) mod newEnd\<rparr>))))"

text \<open>\<^verbatim>\<open>Read(float clipStart, float clipEnd, size_t minClip)\<close>\<close>

definition Read_window ::
  "real \<Rightarrow> real \<Rightarrow> size_t \<Rightarrow> 'a LoopBuffer \<Rightarrow> error + ('a \<times> 'a LoopBuffer)" where
  "Read_window clipStart clipEnd minClip s =
     bind_err (size_of_float (round_real (clipEnd * float_of_size (length_m s)))) (\<lambda>newEnd0.
       let newEnd = (if newEnd0 < minClip then minClip else newEnd0) in
       bind_err (size_of_float (round_real (clipStart * float_of_size (length_m s)))) (\<lambda>offset.
       bind_err (size_mod (read_ptr_m s + offset) (length_m s)) (\<lambda>i.
       bind_err (line_at (line_m s) i) (\<lambda>a.
       bind_err (size_mod (read_ptr_m s + 1) newEnd) (\<lambda>r.
       Inr (a, s\<lparr>read_ptr_m := r\<rparr>))))))"

text \<open>
  \<^verbatim>\<open>Read(float clipStart, float clipEnd, size_t minClip, bool randomLength, bool randomStart)\<close>.
  The function-local statics \<^verbatim>\<open>newEnd\<close> and \<^verbatim>\<open>offset\<close> are the pair \<open>st\<close>, returned updated;
  \<open>rand1\<close> and \<open>rand2\<close> are the values of the first and the second call of \<^verbatim>\<open>rand()\<close>,
  converted to \<^verbatim>\<open>size_t\<close>.
\<close>

definition Read_random ::
  "real \<Rightarrow> real \<Rightarrow> size_t \<Rightarrow> bool \<Rightarrow> bool \<Rightarrow> size_t \<Rightarrow> size_t \<Rightarrow> size_t \<times> size_t
     \<Rightarrow> 'a LoopBuffer \<Rightarrow> error + ('a \<times> (size_t \<times> size_t) \<times> 'a LoopBuffer)" where
  "Read_random clipStart clipEnd minClip randomLength randomStart rand1 rand2 st s =
     bind_err
       (if \<not> randomStart then size_of_float (round_real (clipStart * float_of_size (length_m s)))
        else if GetReadPosition s = 0
        then bind_err (size_mod rand1 (length_m s)) (\<lambda>r. size_of_float (round_real (clipStart * float_of_size r)))
        else Inr (snd st)) (\<lambda>offset.
     bind_err
       (if \<not> randomLength then size_of_float (round_real (clipEnd * float_of_size (length_m s)))
        else if GetReadPosition s = 0
        then bind_err (size_mod rand2 (length_m s)) (\<lambda>r. size_of_float (round_real (clipEnd * float_of_size r)))
        else Inr (fst st)) (\<lambda>newEnd0.
       let newEnd1 = (if newEnd0 < minClip then minClip else newEnd0);
           newEnd = (if newEnd1 \<ge> length_m s then length_m s else newEnd1) in
       bind_err (size_mod (read_ptr_m s + offset) (length_m s)) (\<lambda>i.
       bind_err (line_at (line_m s) i) (\<lambda>a.
       bind_err (size_mod (read_ptr_m s + 1) newEnd) (\<lambda>r.
       Inr (a, (newEnd, offset), s\<lparr>read_ptr_m := r\<rparr>))))))"

text \<open>
  \<^verbatim>\<open>Read(float clipStart, float clipEnd, float speed, size_t minClip, bool randomLength,
  bool randomStart)\<close> on a buffer of floats, with its own statics.  \<^verbatim>\<open>modf\<close> splits the float
  \<^verbatim>\<open>speed + frac_\<close> into the integer part, rounded towards zero, and the rest, exactly.
\<close>

definition Read_random_speed ::
  "real \<Rightarrow> real \<Rightarrow> real \<Rightarrow> size_t \<Rightarrow> bool \<Rightarrow> bool \<Rightarrow> size_t \<Rightarrow> size_t \<Rightarrow> size_t \<times> size_t
     \<Rightarrow> float LoopBuffer \<Rightarrow> error + (float \<times> (size_t \<times> size_t) \<times> float LoopBuffer)" where
  "Read_random_speed clipStart clipEnd speed minClip randomLength randomStart rand1 rand2 st s =
     (if length_m s > 1 then
        bind_err
          (if \<not> randomStart then size_of_float (round_real (clipStart * float_of_size (length_m s)))
           else if GetReadPosition s = 0
           then bind_err (size_mod rand1 (length_m s)) (\<lambda>r.
                bind_err (size_of_float (round_real (clipStart * float_of_size r))) (\<lambda>offset.
                Inr (if offset < 10 then 10 else offset)))
           else Inr (snd st)) (\<lambda>offset.
        bind_err
          (if \<not> randomLength then size_of_float (round_real (clipEnd * float_of_size (length_m s)))
           else if GetReadPosition s = 0
           then bind_err (size_mod rand2 (length_m s)) (\<lambda>r. size_of_float (round_real (clipEnd * float_of_size r)))
           else Inr (fst st)) (\<lambda>newEnd0.
          let newEnd1 = (if newEnd0 < minClip then minClip else newEnd0);
              newEnd = (if newEnd1 \<ge> length_m s then length_m s else newEnd1);
              rpo = read_ptr_m s + offset in
          bind_err (line_at (line_m s) (rpo mod length_m s)) (\<lambda>a.
          bind_err
            (if speed \<ge> 0 then line_at (line_m s) ((rpo + 1) mod length_m s)
             else if rpo - 1 > 0 then line_at (line_m s) ((rpo - 1) mod length_m s)
             else Inr (Finite (float_of_size (length_m s - 1)))) (\<lambda>b.
          let intpart = trunc (round_real (speed + frac_m s));
              s1 = s\<lparr>frac_m := round_real (speed + frac_m s) - real_of_int intpart\<rparr> in
          if \<not> int_ok intpart then Inl FloatConv
          else
            bind_err (size_mod (read_ptr_m s1 + word_of_int intpart) newEnd) (\<lambda>r.
              let s2 = s1\<lparr>read_ptr_m := r\<rparr>;
                  s3 = (if read_ptr_m s2 < 0 then s2\<lparr>read_ptr_m := newEnd - 1\<rparr> else s2) in
              Inr (fadd a (fmul (fsub b a) (Finite (frac_m s3))), (newEnd, offset), s3))))))
      else Inr (0, st, s))"

subsection \<open>The guarded Splice\<close>

text \<open>\<^verbatim>\<open>line_[k] *= v\<close> and \<^verbatim>\<open>line_[k] = v\<close> for an \<^verbatim>\<open>int\<close> index.\<close>

definition scale_at :: "float list \<Rightarrow> int \<Rightarrow> real \<Rightarrow> error + float list" where
  "scale_at l k v =
     (if 0 \<le> k \<and> k < int (length l) then Inr (l[nat k := fmul (l ! nat k) (Finite v)])
      else Inl OutOfBounds)"

definition store_at :: "float list \<Rightarrow> int \<Rightarrow> float \<Rightarrow> error + float list" where
  "store_at l k v =
     (if 0 \<le> k \<and> k < int (length l) then Inr (l[nat k := v]) else Inl OutOfBounds)"

text \<open>The factor \<^verbatim>\<open>(float)i / (float)fadeLength\<close>; in the loops \<open>fadeLength\<close> is at least 1.\<close>

definition fade_factor :: "int \<Rightarrow> int \<Rightarrow> real" where
  "fade_factor i fadeLength = round_real (float_of_int i / float_of_int fadeLength)"

text \<open>The fade loop, entered at \<open>i\<close>.\<close>

function Splice_fade :: "int \<Rightarrow> int \<Rightarrow> int \<Rightarrow> int \<Rightarrow> float list \<Rightarrow> error + float list" where
  "Splice_fade i fadeLength startPoint endPoint l =
     (if i < fadeLength then
        if \<not> int_ok (startPoint + i) then Inl IntOverflow
        else case scale_at l (startPoint + i) (fade_factor i fadeLength) of
               Inl e \<Rightarrow> Inl e
             | Inr l1 \<Rightarrow>
                 if \<not> int_ok (endPoint - i) then Inl IntOverflow
                 else (case scale_at l1 (endPoint - i) (fade_factor i fadeLength) of
                         Inl e \<Rightarrow> Inl e
                       | Inr l2 \<Rightarrow> Splice_fade (i + 1) fadeLength startPoint endPoint l2)
      else Inr l)"
  by pat_completeness auto
termination
  by (relation "measure (\<lambda>(i, fadeLength, startPoint, endPoint, l). nat (fadeLength - i))") auto

declare Splice_fade.simps [simp del]

text \<open>The loop that zeroes the rest of the loop, entered at \<open>i\<close>.\<close>

function Splice_zero :: "int \<Rightarrow> int \<Rightarrow> float list \<Rightarrow> error + float list" where
  "Splice_zero i len l =
     (if i < len then
        case store_at l i 0 of
          Inl e \<Rightarrow> Inl e
        | Inr l1 \<Rightarrow> Splice_zero (i + 1) len l1
      else Inr l)"
  by pat_completeness auto
termination
  by (relation "measure (\<lambda>(i, len, l). nat (len - i))") auto

declare Splice_zero.simps [simp del]

definition Splice :: "c_int \<Rightarrow> c_int \<Rightarrow> c_int \<Rightarrow> float LoopBuffer \<Rightarrow> error + float LoopBuffer" where
  "Splice fadeLength startPoint endPoint s =
     (if \<not> int_ok (2 * sint fadeLength) then Inl IntOverflow
      else if 2 * sint fadeLength < sint (length_m s) \<and> sint startPoint \<ge> 0
              \<and> sint endPoint < sint (length_m s)
      then
        case Splice_fade 0 (sint fadeLength) (sint startPoint) (sint endPoint) (line_m s) of
          Inl e \<Rightarrow> Inl e
        | Inr l1 \<Rightarrow>
            (case Splice_zero (sint endPoint) (sint (length_m s)) l1 of
               Inl e \<Rightarrow> Inl e
             | Inr l2 \<Rightarrow> Inr (s\<lparr>line_m := l2\<rparr>))
      else Inr s)"

subsection \<open>The Splice without arguments\<close>

text \<open>The loop of \<^verbatim>\<open>Splice()\<close>, entered at \<open>i\<close>.  The index \<^verbatim>\<open>(length_ - 1) - i\<close> is computed in
  \<^verbatim>\<open>size_t\<close>.\<close>

function Splice_ramp :: "int \<Rightarrow> int \<Rightarrow> size_t \<Rightarrow> float list \<Rightarrow> error + float list" where
  "Splice_ramp i fadeLength len l =
     (if i < fadeLength then
        bind_err (scale_at l i (fade_factor i fadeLength)) (\<lambda>l1.
        bind_err (scale_at l1 (uint ((len - 1) - word_of_int i))
                    (fade_factor i fadeLength)) (\<lambda>l2.
        Splice_ramp (i + 1) fadeLength len l2))
      else Inr l)"
  by pat_completeness auto
termination
  by (relation "measure (\<lambda>(i, fadeLength, len, l). nat (fadeLength - i))") auto

declare Splice_ramp.simps [simp del]

definition Splice_default :: "float LoopBuffer \<Rightarrow> error + float LoopBuffer" where
  "Splice_default s =
     bind_err (Splice_ramp 0 2048 (length_m s) (line_m s)) (\<lambda>l. Inr (s\<lparr>line_m := l\<rparr>))"

subsection \<open>Sequences of calls\<close>

text \<open>Writing the samples of a list one after the other.\<close>

fun Writes :: "size_t \<Rightarrow> 'a list \<Rightarrow> 'a LoopBuffer \<Rightarrow> error + 'a LoopBuffer" where
  "Writes max_size [] s = Inr s"
| "Writes max_size (x # xs) s =
     (case Write max_size x s of Inl e \<Rightarrow> Inl e | Inr s1 \<Rightarrow> Writes max_size xs s1)"

text \<open>\<open>n\<close> calls of one read function: the samples returned, in order, and the final state.\<close>

fun repeat_read ::
  "('a LoopBuffer \<Rightarrow> error + ('a \<times> 'a LoopBuffer)) \<Rightarrow> nat \<Rightarrow> 'a LoopBuffer
     \<Rightarrow> error + ('a list \<times> 'a LoopBuffer)" where
  "repeat_read rd 0 s = Inr ([], s)"
| "repeat_read rd (Suc n) s =
     (case rd s of
        Inl e \<Rightarrow> Inl e
      | Inr (a, s1) \<Rightarrow>
          (case repeat_read rd n s1 of Inl e \<Rightarrow> Inl e | Inr (as, s2) \<Rightarrow> Inr (a # as, s2)))"


text \<open>
  The state of a program with one buffer of floats: the buffer and the statics of the two
  randomised reads.
\<close>

record program =
  random_statics :: "size_t \<times> size_t"
  speed_statics :: "size_t \<times> size_t"
  buffer :: "float LoopBuffer"

text \<open>A call of a public operation, with its arguments (and the values of \<^verbatim>\<open>rand()\<close> for the
  randomised reads), and its effect on the program state; the value returned is dropped.\<close>

datatype call =
    Call_Init
  | Call_Reset
  | Call_SetLength size_t
  | Call_Setlength real
  | Call_GetLength
  | Call_SetReadPosition size_t
  | Call_GetReadPosition
  | Call_GetWritePosition
  | Call_Write float
  | Call_Read
  | Call_ReadOnce
  | Call_Read_clip real size_t
  | Call_Read_window real real size_t
  | Call_Read_random real real size_t bool bool size_t size_t
  | Call_Read_random_speed real real real size_t bool bool size_t size_t
  | Call_ReadSpeed real
  | Call_Splice_default
  | Call_Splice c_int c_int c_int

definition on_buffer :: "error + float LoopBuffer \<Rightarrow> program \<Rightarrow> error + program" where
  "on_buffer r p = map_sum id (\<lambda>b. p\<lparr>buffer := b\<rparr>) r"

fun call_step :: "size_t \<Rightarrow> call \<Rightarrow> program \<Rightarrow> error + program" where
  "call_step max_size Call_Init p = on_buffer (Inr (Init max_size (buffer p))) p"
| "call_step max_size Call_Reset p = on_buffer (Inr (Reset (buffer p))) p"
| "call_step max_size (Call_SetLength len) p =
     on_buffer (Inr (SetLength max_size len (buffer p))) p"
| "call_step max_size (Call_Setlength len) p = on_buffer (Setlength max_size len (buffer p)) p"
| "call_step max_size Call_GetLength p = Inr p"
| "call_step max_size (Call_SetReadPosition position) p =
     on_buffer (Inr (SetReadPosition position (buffer p))) p"
| "call_step max_size Call_GetReadPosition p = Inr p"
| "call_step max_size Call_GetWritePosition p = Inr p"
| "call_step max_size (Call_Write sample) p = on_buffer (Write max_size sample (buffer p)) p"
| "call_step max_size Call_Read p = on_buffer (map_sum id snd (Read (buffer p))) p"
| "call_step max_size Call_ReadOnce p = on_buffer (map_sum id snd (ReadOnce (buffer p))) p"
| "call_step max_size (Call_Read_clip clipEnd minClip) p =
     on_buffer (map_sum id snd (Read_clip clipEnd minClip (buffer p))) p"
| "call_step max_size (Call_Read_window clipStart clipEnd minClip) p =
     on_buffer (map_sum id snd (Read_window clipStart clipEnd minClip (buffer p))) p"
| "call_step max_size
     (Call_Read_random clipStart clipEnd minClip randomLength randomStart rand1 rand2) p =
     map_sum id (\<lambda>(a, st, b). p\<lparr>random_statics := st, buffer := b\<rparr>)
       (Read_random clipStart clipEnd minClip randomLength randomStart rand1 rand2
          (random_statics p) (buffer p))"
| "call_step max_size
     (Call_Read_random_speed clipStart clipEnd speed minClip randomLength randomStart rand1 rand2) p =
     map_sum id (\<lambda>(a, st, b). p\<lparr>speed_statics := st, buffer := b\<rparr>)
       (Read_random_speed clipStart clipEnd speed minClip randomLength randomStart rand1 rand2
          (speed_statics p) (buffer p))"
| "call_step max_size (Call_ReadSpeed speed) p =
     on_buffer (map_sum id snd (ReadSpeed speed (buffer p))) p"
| "call_step max_size Call_Splice_default p = on_buffer (Splice_default (buffer p)) p"
| "call_step max_size (Call_Splice fadeLength startPoint endPoint) p =
     on_buffer (Splice fadeLength startPoint endPoint (buffer p)) p"

fun run :: "size_t \<Rightarrow> call list \<Rightarrow> program \<Rightarrow> error + program" where
  "run max_size [] p = Inr p"
| "run max_size (c # cs) p =
     (case call_step max_size c p of Inl e \<Rightarrow> Inl e | Inr p1 \<Rightarrow> run max_size cs p1)"

text \<open>The calls that set the length to 0: \<^verbatim>\<open>SetLength(0)\<close>, and \<^verbatim>\<open>Setlength(x)\<close> when the
  integer part of \<open>x\<close> is 0 or the capacity is 1.\<close>

fun sets_length_zero :: "size_t \<Rightarrow> call \<Rightarrow> bool" where
  "sets_length_zero max_size (Call_SetLength len) = (len = 0)"
| "sets_length_zero max_size (Call_Setlength len) =
     ((word_of_int (trunc len) :: size_t) = 0 \<or> max_size = 1)"
| "sets_length_zero max_size c = False"

section \<open>Facts about rounding\<close>

lemma ulp_exp_ge: "e \<le> ulp_exp e x"
  by (induction e x rule: ulp_exp.induct) (subst ulp_exp.simps, auto)

lemma ulp_exp_le: "e \<le> 104 \<Longrightarrow> ulp_exp e x \<le> 104"
  by (induction e x rule: ulp_exp.induct) (subst ulp_exp.simps, auto)

lemma ulp_exp_below:
  "\<bar>x\<bar> < 2 powi (k + 24) \<Longrightarrow> e \<le> k \<Longrightarrow> ulp_exp e x \<le> k"
proof (induction e x rule: ulp_exp.induct)
  case (1 e x)
  show ?case
  proof (cases "e < 104 \<and> \<not> \<bar>x\<bar> < 2 powi (e + 24)")
    case True
    with "1.prems" have "e \<noteq> k" by auto
    with "1.prems" have "e + 1 \<le> k" by simp
    with "1.IH" [OF True "1.prems"(1)] True show ?thesis
      by (subst ulp_exp.simps) simp
  next
    case False
    with "1.prems" show ?thesis
      by (subst ulp_exp.simps) auto
  qed
qed

lemma ulp_exp_bound:
  "ulp_exp e x < 104 \<Longrightarrow> \<bar>x\<bar> < 2 powi (ulp_exp e x + 24)"
proof (induction e x rule: ulp_exp.induct)
  case (1 e x)
  show ?case
  proof (cases "e < 104 \<and> \<not> \<bar>x\<bar> < 2 powi (e + 24)")
    case True
    then have s: "ulp_exp e x = ulp_exp (e + 1) x"
      by (subst ulp_exp.simps) simp
    with "1.IH" [OF True] "1.prems" show ?thesis
      by simp
  next
    case False
    then have s: "ulp_exp e x = e"
      by (subst ulp_exp.simps) auto
    with False "1.prems" show ?thesis
      by auto
  qed
qed

lemma round_even_int: "round_even (real_of_int k) = k"
  by (simp add: round_even_def)

lemma pow2_pos: "0 < (2::real) powi e"
  by simp

lemma pow2_add: "(2::real) powi (a + b) = 2 powi a * 2 powi b"
  by (simp add: power_int_add)

text \<open>A significand of at most 24 bits at an exponent of the format is not changed.\<close>

lemma round_real_representable:
  assumes "\<bar>m\<bar> < 2 ^ 24" and "- 149 \<le> e" and "e \<le> 104"
  shows "round_real (real_of_int m * 2 powi e) = real_of_int m * 2 powi e"
proof -
  let ?x = "real_of_int m * 2 powi e"
  let ?e = "ulp_exp (- 149) ?x"
  have "\<bar>?x\<bar> = real_of_int \<bar>m\<bar> * 2 powi e"
    by (simp add: abs_mult)
  also have "\<dots> < 2 ^ 24 * 2 powi e"
  proof -
    have "real_of_int \<bar>m\<bar> < real_of_int (2 ^ 24)"
      using assms(1) by (simp only: of_int_less_iff)
    then show ?thesis by simp
  qed
  also have "\<dots> = 2 powi (e + 24)"
    by (simp add: pow2_add)
  finally have "?e \<le> e"
    using assms(2) by (rule ulp_exp_below)
  then obtain d where d: "e = ?e + int d"
    by (metis zle_iff_zadd)
  define u where "u = (2::real) powi ?e"
  have u: "0 < u"
    by (simp add: u_def)
  have "(2::real) powi e = 2 powi (?e + int d)"
    using d by (rule arg_cong)
  also have "\<dots> = 2 powi ?e * 2 powi int d"
    by (rule pow2_add)
  finally have p: "(2::real) powi e = 2 ^ d * u"
    by (simp add: u_def mult.commute)
  have r: "round_real ?x = real_of_int (round_even (?x / u)) * u"
    by (simp add: round_real_def Let_def u_def)
  have "?x / u = real_of_int (m * 2 ^ d)"
    using u by (simp add: p)
  then have "round_even (?x / u) = m * 2 ^ d"
    by (simp only: round_even_int)
  then have "round_real ?x = real_of_int (m * 2 ^ d) * u"
    by (simp only: r)
  also have "\<dots> = real_of_int m * (2 ^ d * u)"
    by simp
  finally show ?thesis
    by (simp only: p)
qed

lemma round_even_bounds: "\<lfloor>r\<rfloor> \<le> round_even r \<and> round_even r \<le> \<lceil>r\<rceil>"
proof -
  have "\<lfloor>r\<rfloor> + 1 \<le> \<lceil>r\<rceil>" if "real_of_int \<lfloor>r\<rfloor> \<noteq> r"
    using that by (metis ceiling_altdef order_refl of_int_floor_cancel)
  moreover have "real_of_int \<lfloor>r\<rfloor> \<noteq> r" if "\<not> r - real_of_int \<lfloor>r\<rfloor> < 1 / 2"
    using that by auto
  moreover have "\<lfloor>r\<rfloor> \<le> \<lceil>r\<rceil>"
    by (rule floor_le_ceiling)
  ultimately show ?thesis
    by (auto simp: round_even_def Let_def)
qed

lemma round_even_abs_le:
  assumes "\<bar>r\<bar> \<le> real_of_int k"
  shows "\<bar>round_even r\<bar> \<le> k"
proof -
  have "r \<le> real_of_int k" and "real_of_int (- k) \<le> r"
    using assms by auto
  then have "\<lceil>r\<rceil> \<le> k" and "- k \<le> \<lfloor>r\<rfloor>"
    by (simp_all only: ceiling_le_iff le_floor_iff)
  with round_even_bounds [of r] show ?thesis
    by linarith
qed

lemma round_even_abs_ge:
  assumes "real_of_int k \<le> \<bar>r\<bar>"
  shows "k \<le> \<bar>round_even r\<bar>"
proof (cases "0 \<le> r")
  case True
  with assms have "k \<le> \<lfloor>r\<rfloor>"
    by (simp add: le_floor_iff)
  with round_even_bounds [of r] show ?thesis
    by linarith
next
  case False
  with assms have "r \<le> real_of_int (- k)"
    by simp
  then have "\<lceil>r\<rceil> \<le> - k"
    by (simp only: ceiling_le_iff)
  with round_even_bounds [of r] show ?thesis
    by linarith
qed

lemma ulp_exp_overflow: "2 ^ 128 \<le> \<bar>y\<bar> \<Longrightarrow> e \<le> 104 \<Longrightarrow> ulp_exp e y = 104"
proof (induction e y rule: ulp_exp.induct)
  case (1 e y)
  show ?case
  proof (cases "e < 104")
    case True
    then have "(2::real) powi (e + 24) \<le> 2 powi 128"
      by (intro power_int_increasing) simp_all
    with "1.prems"(1) have n: "\<not> \<bar>y\<bar> < 2 powi (e + 24)"
      by simp
    with True "1.IH" "1.prems"(1) show ?thesis
      by (subst ulp_exp.simps) simp
  next
    case False
    with "1.prems"(2) show ?thesis
      by (subst ulp_exp.simps) simp
  qed
qed

lemma round_real_big:
  assumes "2 ^ 24 \<le> \<bar>m\<bar>"
  shows "round_real (real_of_int m * 2 powi 104) = real_of_int m * 2 powi 104"
proof -
  have "real_of_int (2 ^ 24) \<le> real_of_int \<bar>m\<bar>"
    using assms by (simp only: of_int_le_iff)
  then have "2 ^ 24 * 2 ^ 104 \<le> \<bar>real_of_int m\<bar> * (2::real) ^ 104"
    by simp
  then have "2 ^ 128 \<le> \<bar>real_of_int m * 2 powi 104\<bar>"
    by (simp add: abs_mult)
  then have "ulp_exp (- 149) (real_of_int m * 2 powi 104) = 104"
    by (rule ulp_exp_overflow) simp
  then show ?thesis
    by (simp add: round_real_def Let_def round_even_int)
qed

lemma round_real_fixed:
  assumes "- 149 \<le> e" and "e \<le> 104" and "\<bar>m\<bar> \<le> 2 ^ 24 \<or> e = 104"
  shows "round_real (real_of_int m * 2 powi e) = real_of_int m * 2 powi e"
proof -
  consider "\<bar>m\<bar> < 2 ^ 24" | "\<bar>m\<bar> = 2 ^ 24" "e < 104" | "2 ^ 24 \<le> \<bar>m\<bar>" "e = 104"
    using assms by linarith
  then show ?thesis
  proof cases
    case 1
    then show ?thesis using assms(1,2) by (rule round_real_representable)
  next
    case 2
    have p: "(2::real) powi (e + 1) = 2 powi e * 2"
      by (simp add: pow2_add)
    from 2(1) consider "m = 2 ^ 24" | "m = - (2 ^ 24)"
      by linarith
    then show ?thesis
    proof cases
      case 1
      have "round_real (real_of_int (2 ^ 23) * 2 powi (e + 1)) = real_of_int (2 ^ 23) * 2 powi (e + 1)"
        using assms(1) 2(2) by (intro round_real_representable) simp_all
      then show ?thesis
        by (simp add: 1 p)
    next
      case 2
      have "round_real (real_of_int (- (2 ^ 23)) * 2 powi (e + 1))
          = real_of_int (- (2 ^ 23)) * 2 powi (e + 1)"
        using assms(1) \<open>e < 104\<close> by (intro round_real_representable) simp_all
      then show ?thesis
        by (simp add: 2 p)
    qed
  next
    case 3
    then show ?thesis
      using round_real_big [of m] by simp
  qed
qed

lemma round_real_shape:
  "\<exists>m e. round_real x = real_of_int m * 2 powi e \<and> - 149 \<le> e \<and> e \<le> 104
     \<and> (\<bar>m\<bar> \<le> 2 ^ 24 \<or> e = 104)
     \<and> (\<forall>k. \<bar>x\<bar> < 2 powi (k + 24) \<and> - 149 \<le> k \<and> k \<le> 104 \<longrightarrow> e \<le> k \<and> \<bar>m\<bar> \<le> 2 ^ 24)"
proof -
  let ?e = "ulp_exp (- 149) x"
  let ?m = "round_even (x / 2 powi ?e)"
  have b: "- 149 \<le> ?e" "?e \<le> 104"
    using ulp_exp_ge [of "- 149" x] ulp_exp_le [of "- 149" x] by simp_all
  have m: "\<bar>?m\<bar> \<le> 2 ^ 24" if "\<bar>x\<bar> < 2 powi (?e + 24)"
  proof -
    have "\<bar>x\<bar> < 2 ^ 24 * 2 powi ?e"
      using that by (simp add: pow2_add mult.commute)
    then have "\<bar>x / 2 powi ?e\<bar> \<le> real_of_int (2 ^ 24)"
      by (simp add: abs_divide pos_divide_le_eq)
    then show ?thesis
      by (rule round_even_abs_le)
  qed
  have "\<bar>?m\<bar> \<le> 2 ^ 24 \<or> ?e = 104"
    using m ulp_exp_bound [of "- 149" x] b(2) by fastforce
  moreover have "?e \<le> k \<and> \<bar>?m\<bar> \<le> 2 ^ 24"
    if "\<bar>x\<bar> < 2 powi (k + 24)" "- 149 \<le> k" "k \<le> 104" for k
  proof -
    have l: "?e \<le> k"
      using that(1,2) by (rule ulp_exp_below)
    then have "(2::real) powi (k + 24) \<le> 2 powi (?e + 24) \<or> ?e < 104"
      using that(3) by (cases "?e = k") auto
    then have "\<bar>x\<bar> < 2 powi (?e + 24)"
      using that(1) ulp_exp_bound [of "- 149" x] by auto
    with m l show ?thesis by simp
  qed
  moreover have "round_real x = real_of_int ?m * 2 powi ?e"
    by (simp add: round_real_def Let_def)
  ultimately show ?thesis
    using b by blast
qed

lemma round_real_idem: "round_real (round_real x) = round_real x"
proof -
  from round_real_shape [of x] obtain m e where
    "round_real x = real_of_int m * 2 powi e" "- 149 \<le> e" "e \<le> 104" "\<bar>m\<bar> \<le> 2 ^ 24 \<or> e = 104"
    by blast
  then show ?thesis
    by (simp add: round_real_fixed)
qed

lemma round_real_abs_le:
  assumes "\<bar>x\<bar> < 2 powi (k + 24)" and "- 149 \<le> k" and "k \<le> 104"
  shows "\<bar>round_real x\<bar> \<le> 2 powi (k + 24)"
proof -
  from round_real_shape [of x] assms obtain m e where
    r: "round_real x = real_of_int m * 2 powi e" and e: "e \<le> k" and m: "\<bar>m\<bar> \<le> 2 ^ 24"
    by blast
  have "real_of_int \<bar>m\<bar> \<le> real_of_int (2 ^ 24)"
    using m by (simp only: of_int_le_iff)
  then have "\<bar>round_real x\<bar> \<le> 2 ^ 24 * 2 powi e"
    by (simp add: r abs_mult)
  also have "\<dots> = 2 powi (e + 24)"
    by (simp add: pow2_add)
  also have "\<dots> \<le> 2 powi (k + 24)"
    using e by (intro power_int_increasing) simp_all
  finally show ?thesis .
qed

lemma round_real_int:
  assumes "\<bar>n\<bar> \<le> 2 ^ 24"
  shows "round_real (real_of_int n) = real_of_int n"
proof (cases "\<bar>n\<bar> < 2 ^ 24")
  case True
  from round_real_representable [OF True, of 0] show ?thesis by simp
next
  case False
  with assms have "\<bar>n\<bar> = 2 ^ 24" by simp
  then consider "n = 2 ^ 24" | "n = - (2 ^ 24)" by linarith
  then show ?thesis
  proof cases
    case 1
    from round_real_representable [of "2 ^ 23" 1] show ?thesis
      by (simp add: 1)
  next
    case 2
    from round_real_representable [of "- (2 ^ 23)" 1] show ?thesis
      by (simp add: 2)
  qed
qed

lemma round_real_0: "round_real 0 = 0"
  using round_real_int [of 0] by simp

lemma round_real_numeral: "numeral k \<le> (16777216::int) \<Longrightarrow> round_real (numeral k) = numeral k"
  using round_real_int [of "numeral k"] by simp

lemma round_real_neg_numeral:
  "numeral k \<le> (16777216::int) \<Longrightarrow> round_real (- numeral k) = - numeral k"
  using round_real_int [of "- numeral k"] by simp

lemma round_real_1: "round_real 1 = 1"
  using round_real_int [of 1] by simp

lemma round_real_m1: "round_real (- 1) = - 1"
  using round_real_int [of "- 1"] by simp

lemma round_float_finite:
  assumes "round_real x = y" and "\<bar>y\<bar> < 2 ^ 128"
  shows "round_float x = Finite y"
proof -
  have "\<not> 2 ^ 128 \<le> y" and "\<not> y \<le> - (2 ^ 128)"
    using assms(2) by auto
  then show ?thesis
    by (simp add: round_float_def Let_def assms(1))
qed

lemma round_float_int:
  assumes "\<bar>n\<bar> \<le> 2 ^ 24"
  shows "round_float (real_of_int n) = Finite (real_of_int n)"
proof -
  have "real_of_int \<bar>n\<bar> \<le> real_of_int (2 ^ 24)"
    using assms by (simp only: of_int_le_iff)
  then have "\<bar>real_of_int n\<bar> < 2 ^ 128"
    by simp
  with round_real_int [OF assms] show ?thesis
    by (rule round_float_finite)
qed

lemma round_float_0: "round_float 0 = Finite 0"
  using round_float_int [of 0] by simp

lemma round_float_numeral:
  "numeral k \<le> (16777216::int) \<Longrightarrow> round_float (numeral k) = Finite (numeral k)"
  using round_float_int [of "numeral k"] by simp


lemma round_float_overflow:
  assumes "2 ^ 128 \<le> x"
  shows "round_float x = PlusInf"
proof -
  have e: "ulp_exp (- 149) x = 104"
    using assms by (intro ulp_exp_overflow) simp_all
  have "real_of_int (2 ^ 24) \<le> \<bar>x / 2 powi 104\<bar>"
    using assms by (simp add: pos_le_divide_eq)
  then have "2 ^ 24 \<le> \<bar>round_even (x / 2 powi 104)\<bar>"
    by (rule round_even_abs_ge)
  moreover have "0 \<le> x / 2 powi 104"
    using assms by simp
  then have "0 \<le> \<lfloor>x / 2 powi 104\<rfloor>"
    by (simp only: zero_le_floor)
  then have "0 \<le> round_even (x / 2 powi 104)"
    using round_even_bounds [of "x / 2 powi 104"] by linarith
  ultimately have "2 ^ 24 \<le> round_even (x / 2 powi 104)"
    by simp
  then have "real_of_int (2 ^ 24) \<le> real_of_int (round_even (x / 2 powi 104))"
    by (simp only: of_int_le_iff)
  then have "2 ^ 24 * 2 ^ 104 \<le> real_of_int (round_even (x / 2 powi 104)) * (2::real) ^ 104"
    by simp
  then have "2 ^ 128 \<le> round_real x"
    by (simp add: round_real_def Let_def e)
  then show ?thesis
    by (simp add: round_float_def Let_def)
qed


lemma float_of_size_bound: "\<bar>float_of_size n\<bar> \<le> 2 ^ 32"
proof -
  have "unat n < 2 ^ 32"
    using unsigned_less [of n] by simp
  then have "real (unat n) < real (2 ^ 32)"
    by (simp only: of_nat_less_iff)
  moreover have "\<bar>real (unat n)\<bar> = real (unat n)"
    by (rule abs_of_nonneg) (rule of_nat_0_le_iff)
  ultimately have "\<bar>real (unat n)\<bar> < 2 powi (8 + 24)"
    by simp
  then have "\<bar>round_real (real (unat n))\<bar> \<le> 2 powi (8 + 24)"
    by (rule round_real_abs_le) simp_all
  then show ?thesis
    by (simp add: float_of_size_def)
qed

text \<open>\<^verbatim>\<open>(float) n + 0.f\<close> is the length rounded once.\<close>

lemma fadd_float_of_size_0: "fadd (Finite (float_of_size n)) (Finite 0) = Finite (float_of_size n)"
proof -
  have "round_real (float_of_size n) = float_of_size n"
    by (simp add: float_of_size_def round_real_idem)
  moreover have "\<bar>float_of_size n\<bar> < 2 ^ 128"
    using float_of_size_bound [of n] by (rule le_less_trans) simp
  ultimately have "round_float (float_of_size n) = Finite (float_of_size n)"
    by (rule round_float_finite)
  then show ?thesis
    by simp
qed

lemma float_of_size_exact:
  assumes "unat n \<le> 2 ^ 24"
  shows "float_of_size n = real (unat n)"
proof -
  have "\<bar>int (unat n)\<bar> \<le> 2 ^ 24"
    using assms by (metis abs_of_nat of_nat_le_iff of_nat_numeral of_nat_power)
  from round_real_int [OF this] show ?thesis
    by (simp add: float_of_size_def)
qed

lemma float_of_int_exact: "\<bar>i\<bar> \<le> 2 ^ 24 \<Longrightarrow> float_of_int i = real_of_int i"
  by (simp add: float_of_int_def round_real_int)

section \<open>Facts about words and lists\<close>

lemma unat_inc:
  fixes x m :: size_t
  assumes "x < m"
  shows "unat (x + 1) = Suc (unat x)"
proof -
  have "unat x < unat m"
    using assms by (simp add: word_less_nat_alt)
  moreover have "unat m < 2 ^ 32"
    using unsigned_less [of m] by simp
  ultimately have "unat x + unat (1::size_t) < 2 ^ LENGTH(32)"
    by simp
  then have "unat (x + 1) = unat x + unat (1::size_t)"
    by (simp only: unat_add_lem)
  then show ?thesis by simp
qed

lemma word_one_le_iff: "1 \<le> (x::size_t) \<longleftrightarrow> x \<noteq> 0"
  by (simp add: word_le_nat_alt Suc_le_eq unat_gt_0)

lemma inc_nonzero:
  fixes x m :: size_t
  assumes "x < m"
  shows "1 \<le> x + 1"
  using unat_inc [OF assms] by (simp add: word_le_nat_alt)

lemma word_mod_lt: "(n::size_t) \<noteq> 0 \<Longrightarrow> m mod n < n"
  by (simp add: word_mod_less_divisor word_neq_0_conv)


lemma unat_of_nat_below:
  fixes m :: size_t
  assumes "k < unat m"
  shows "unat (of_nat k :: size_t) = k"
proof -
  have "unat m < 2 ^ 32"
    using unsigned_less [of m] by simp
  with assms have "k < 2 ^ 32" by simp
  then show ?thesis by (simp add: unat_of_nat)
qed

lemma of_nat_below:
  fixes m :: size_t
  assumes "k < unat m"
  shows "(of_nat k :: size_t) < m"
  using assms by (simp add: word_less_nat_alt unat_of_nat_below)

lemma of_nat_mod_below:
  fixes m :: size_t
  assumes "k < unat m"
  shows "(of_nat k :: size_t) mod m = of_nat k"
  using of_nat_below [OF assms] by (simp add: mod_word_less)

lemma of_nat_inc: "(of_nat k + 1 :: size_t) = of_nat (Suc k)"
  by simp

lemma sint_32: "sint (x :: 32 word) = (if uint x < 2 ^ 31 then uint x else uint x - 2 ^ 32)"
proof -
  have b: "0 \<le> uint x" "uint x < 2 ^ 32"
    using uint_lt2p [of x] by simp_all
  have "sint x = (uint x + 2 ^ 31) mod 2 ^ 32 - 2 ^ 31"
    by (simp add: sint_uint signed_take_bit_eq_take_bit_shift take_bit_eq_mod)
  also have "\<dots> = (if uint x < 2 ^ 31 then uint x else uint x - 2 ^ 32)"
  proof (cases "uint x < 2 ^ 31")
    case True
    then have "(uint x + 2 ^ 31) mod 2 ^ 32 = uint x + 2 ^ 31"
      using b by (intro mod_pos_pos_trivial) simp_all
    with True show ?thesis by simp
  next
    case False
    then have "(uint x + 2 ^ 31) mod 2 ^ 32 = uint x + 2 ^ 31 - 2 ^ 32"
      using b by (intro int_mod_pos_eq [where q = 1]) simp_all
    with False show ?thesis by simp
  qed
  finally show ?thesis .
qed

lemma min_cap:
  fixes w c :: size_t
  assumes "c \<noteq> 0"
  shows "(if w < c then w else c - 1) = min w (c - 1)"
proof -
  have "unat (c - 1) = unat c - 1"
    using assms by (simp add: unat_minus_one)
  moreover have "0 < unat c"
    using assms by (simp add: unat_gt_0)
  ultimately have "w < c \<longleftrightarrow> w \<le> c - 1"
    by (auto simp: word_less_nat_alt word_le_nat_alt)
  then show ?thesis
    by (auto simp: min_def)
qed

lemma trunc_nonneg: "0 \<le> x \<Longrightarrow> trunc x = \<lfloor>x\<rfloor>"
  by (simp add: trunc_def)



lemma fold_clear:
  "n \<le> length l \<Longrightarrow> fold (\<lambda>i l. l[i := 0]) [0..<n] l = replicate n 0 @ drop n l"
proof (induction n)
  case 0
  then show ?case by simp
next
  case (Suc n)
  then have "n < length l" by simp
  then have "drop n l = l ! n # drop (Suc n) l"
    by (simp add: Cons_nth_drop_Suc)
  then have "(replicate n 0 @ drop n l)[n := 0] = replicate n 0 @ 0 # drop (Suc n) l"
    by (simp add: list_update_append)
  with Suc show ?case
    by (simp add: replicate_append_same)
qed

lemma clear_line_replicate:
  "length l = unat max_size \<Longrightarrow> clear_line max_size l = replicate (unat max_size) 0"
  by (simp add: clear_line_def fold_clear)

lemma clear_line_4: "clear_line 4 [a, b, c, d] = [0, 0, 0, 0]"
  by (simp add: clear_line_def upt_rec)

lemma unat_minus_1_size: "unat (- 1 :: size_t) = 4294967295"
  by (simp add: unsigned_minus_1_eq_mask mask_eq_exp_minus_1)

lemma floor_minus_one: "\<lfloor>- 1 :: real\<rfloor> = - 1"
  by (simp add: floor_eq_iff)

lemma repeat_read_numeral:
  "repeat_read rd (numeral k) s =
     (case rd s of
        Inl e \<Rightarrow> Inl e
      | Inr (a, s1) \<Rightarrow>
          (case repeat_read rd (pred_numeral k) s1 of
             Inl e \<Rightarrow> Inl e
           | Inr (as, s2) \<Rightarrow> Inr (a # as, s2)))"
  by (simp add: numeral_eq_Suc)

lemma line_at_below:
  assumes "i < n" and "unat (n::size_t) \<le> length l"
  shows "line_at l i = Inr (l ! unat i)"
proof -
  have "unat i < unat n"
    using assms(1) by (simp add: word_less_nat_alt)
  with assms(2) show ?thesis
    by (simp add: line_at_def)
qed

section \<open>Write-wrap saturation\<close>

text \<open>
  C7.  With capacity 4, starting from Init, the writes 10, 20, 30, 40, 50 leave
  length 4, storage [50, 20, 30, 40] and write cursor 1; the length is 1 after Init,
  2, 3, 4 after the first three writes, and 4 after the fourth and the fifth write, which
  overwrites index 0.
\<close>

theorem write_wrap_saturation:
  "Writes 4 [10, 20, 30, 40, 50] (Init 4 \<lparr>frac_m = f, write_ptr_m = w, read_ptr_m = r, length_m = n, line_m = [a, b, c, d::real]\<rparr>)
     = Inr \<lparr>frac_m = 0, write_ptr_m = 1, read_ptr_m = 0, length_m = 4, line_m = [50, 20, 30, 40]\<rparr>
   \<and> length_m (Init 4 \<lparr>frac_m = f, write_ptr_m = w, read_ptr_m = r, length_m = n, line_m = [a, b, c, d::real]\<rparr>) = 1
   \<and> map (\<lambda>k. map_sum id length_m
         (Writes 4 (take k [10, 20, 30, 40, 50])
            (Init 4 \<lparr>frac_m = f, write_ptr_m = w, read_ptr_m = r, length_m = n, line_m = [a, b, c, d::real]\<rparr>)))
       [1, 2, 3, 4, 5]
     = [Inr 2, Inr 3, Inr 4, Inr 4, Inr 4]"
  by (simp add: Init_def Reset_def clear_line_4 Write_def Let_def word_le_nat_alt)

section \<open>The bounds of the length\<close>

lemma Write_max_size: "Write max_size sample s = Inr s' \<Longrightarrow> max_size \<noteq> 0"
  by (auto simp: Write_def split: if_splits)

lemma write_ptr_advance: "max_size \<noteq> 0 \<Longrightarrow> (w + 1) mod max_size < (max_size::size_t)"
  by (simp add: word_mod_less_divisor word_neq_0_conv)

lemma Write_length_le:
  assumes "Write max_size sample s = Inr s'" and "length_m s \<le> max_size"
  shows "length_m s' \<le> max_size"
proof -
  have "(write_ptr_m s + 1) mod max_size + 1 \<le> max_size"
    using Write_max_size [OF assms(1)] by (intro inc_le write_ptr_advance)
  with assms show ?thesis
    by (auto simp: Write_def Let_def split: if_splits)
qed

lemma Write_length_ge:
  assumes "Write max_size sample s = Inr s'"
  shows "1 \<le> length_m s'"
proof -
  have a: "1 \<le> (write_ptr_m s + 1) mod max_size + 1"
    using Write_max_size [OF assms] by (intro inc_nonzero [where m = max_size] write_ptr_advance)
  have b: "1 \<le> length_m s" if "\<not> length_m s \<le> (write_ptr_m s + 1) mod max_size"
    using that by (auto simp: word_one_le_iff)
  from assms a b show ?thesis
    by (auto simp: Write_def Let_def split: if_splits)
qed

lemma SetLength_length_le: "length_m (SetLength max_size len s) \<le> max_size"
  by (simp add: SetLength_def less_imp_le)

lemma Setlength_length_le:
  assumes "Setlength max_size len s = Inr s'" and "max_size \<noteq> 0"
  shows "length_m s' \<le> max_size"
proof -
  have "max_size - 1 \<le> max_size"
    using assms(2) by (simp add: word_le_nat_alt unat_minus_one)
  with assms(1) show ?thesis
    by (auto simp: Setlength_def Let_def split: if_splits)
qed

lemma Read_length: "Read s = Inr (a, s') \<Longrightarrow> length_m s' = length_m s"
  by (auto simp: Read_def split: if_splits sum.splits)

lemma ReadOnce_length: "ReadOnce s = Inr (a, s') \<Longrightarrow> length_m s' = length_m s"
  by (auto simp: ReadOnce_def split: if_splits sum.splits)

lemma ReadSpeed_length: "ReadSpeed speed s = Inr (a, s') \<Longrightarrow> length_m s' = length_m s"
  by (auto simp: ReadSpeed_def Let_def split: if_splits sum.splits)

lemma Splice_length: "Splice fadeLength startPoint endPoint s = Inr s' \<Longrightarrow> length_m s' = length_m s"
  by (auto simp: Splice_def split: if_splits sum.splits)

lemma bind_err_Inr: "bind_err m f = Inr y \<Longrightarrow> \<exists>x. m = Inr x \<and> f x = Inr y"
  by (cases m) (simp_all add: bind_err_def)

lemma Read_clip_length: "Read_clip clipEnd minClip s = Inr (a, s') \<Longrightarrow> length_m s' = length_m s"
  unfolding Read_clip_def Let_def
  by (auto dest!: bind_err_Inr)

lemma Read_window_length:
  "Read_window clipStart clipEnd minClip s = Inr (a, s') \<Longrightarrow> length_m s' = length_m s"
  unfolding Read_window_def Let_def
  by (auto dest!: bind_err_Inr)

lemma Read_random_length:
  "Read_random clipStart clipEnd minClip randomLength randomStart rand1 rand2 st s = Inr (a, st', s')
     \<Longrightarrow> length_m s' = length_m s"
  unfolding Read_random_def Let_def
  by (auto dest!: bind_err_Inr)

lemma Read_random_speed_length:
  "Read_random_speed clipStart clipEnd speed minClip randomLength randomStart rand1 rand2 st s
     = Inr (a, st', s') \<Longrightarrow> length_m s' = length_m s"
  unfolding Read_random_speed_def Let_def
  by (auto dest!: bind_err_Inr split: if_splits)

lemma Splice_default_length: "Splice_default s = Inr s' \<Longrightarrow> length_m s' = length_m s"
  unfolding Splice_default_def
  by (auto dest!: bind_err_Inr)

text \<open>What a call does to the length.\<close>

lemma call_step_length:
  assumes "call_step max_size c p = Inr p'"
  shows "(\<exists>sample b. c = Call_Write sample \<and> Write max_size sample (buffer p) = Inr b \<and> buffer p' = b)
     \<or> (c = Call_Init \<and> length_m (buffer p') = 1)
     \<or> (c = Call_Reset \<and> length_m (buffer p') = 1)
     \<or> (\<exists>len. c = Call_SetLength len \<and> buffer p' = SetLength max_size len (buffer p))
     \<or> (\<exists>len. c = Call_Setlength len \<and> Setlength max_size len (buffer p) = Inr (buffer p'))
     \<or> (\<not> sets_length_zero max_size c \<and> length_m (buffer p') = length_m (buffer p))"
proof (cases c)
  case Call_Init
  with assms show ?thesis by (auto simp: on_buffer_def Init_def Reset_def)
next
  case Call_Reset
  with assms show ?thesis by (auto simp: on_buffer_def Reset_def)
next
  case (Call_SetLength len)
  with assms show ?thesis by (auto simp: on_buffer_def)
next
  case (Call_Setlength len)
  with assms show ?thesis by (cases "Setlength max_size len (buffer p)") (auto simp: on_buffer_def)
next
  case (Call_SetReadPosition position)
  with assms show ?thesis by (auto simp: on_buffer_def SetReadPosition_def Let_def)
next
  case (Call_Write sample)
  with assms show ?thesis by (cases "Write max_size sample (buffer p)") (auto simp: on_buffer_def)
next
  case Call_Read
  with assms show ?thesis by (cases "Read (buffer p)") (auto simp: on_buffer_def dest: Read_length)
next
  case Call_ReadOnce
  with assms show ?thesis
    by (cases "ReadOnce (buffer p)") (auto simp: on_buffer_def dest: ReadOnce_length)
next
  case (Call_Read_clip clipEnd minClip)
  with assms show ?thesis
    by (cases "Read_clip clipEnd minClip (buffer p)") (auto simp: on_buffer_def dest: Read_clip_length)
next
  case (Call_Read_window clipStart clipEnd minClip)
  with assms show ?thesis
    by (cases "Read_window clipStart clipEnd minClip (buffer p)")
      (auto simp: on_buffer_def dest: Read_window_length)
next
  case (Call_Read_random clipStart clipEnd minClip randomLength randomStart rand1 rand2)
  with assms show ?thesis
    by (cases "Read_random clipStart clipEnd minClip randomLength randomStart rand1 rand2
          (random_statics p) (buffer p)")
      (auto dest: Read_random_length)
next
  case (Call_Read_random_speed clipStart clipEnd speed minClip randomLength randomStart rand1 rand2)
  with assms show ?thesis
    by (cases "Read_random_speed clipStart clipEnd speed minClip randomLength randomStart
          rand1 rand2 (speed_statics p) (buffer p)")
      (auto dest: Read_random_speed_length)
next
  case (Call_ReadSpeed speed)
  with assms show ?thesis
    by (cases "ReadSpeed speed (buffer p)") (auto simp: on_buffer_def dest: ReadSpeed_length)
next
  case Call_Splice_default
  with assms show ?thesis
    by (cases "Splice_default (buffer p)") (auto simp: on_buffer_def dest: Splice_default_length)
next
  case (Call_Splice fadeLength startPoint endPoint)
  with assms show ?thesis
    by (cases "Splice fadeLength startPoint endPoint (buffer p)")
      (auto simp: on_buffer_def dest: Splice_length)
qed (use assms in auto)

lemma call_step_length_le:
  assumes "call_step max_size c p = Inr p'" and "max_size \<noteq> 0"
    and "length_m (buffer p) \<le> max_size"
  shows "length_m (buffer p') \<le> max_size"
  using call_step_length [OF assms(1)] assms(2,3)
  by (auto simp: word_one_le_iff SetLength_length_le dest: Write_length_le Setlength_length_le)

lemma Setlength_length_ge:
  assumes "Setlength max_size len s = Inr s'" and "\<not> sets_length_zero max_size (Call_Setlength len)"
    and "max_size \<noteq> 0"
  shows "1 \<le> length_m s'"
proof -
  have "max_size - 1 \<noteq> 0"
    using assms(2) by simp
  with assms(1,2) show ?thesis
    by (auto simp: Setlength_def Let_def word_one_le_iff split: if_splits)
qed

lemma call_step_length_ge:
  assumes "call_step max_size c p = Inr p'" and "max_size \<noteq> 0"
    and "1 \<le> length_m (buffer p)" and "\<not> sets_length_zero max_size c"
  shows "1 \<le> length_m (buffer p')"
  using call_step_length [OF assms(1)] assms(2,3,4)
  by (auto simp: SetLength_def word_one_le_iff dest: Write_length_ge Setlength_length_ge
      split: if_splits)

lemma run_length_le:
  "run max_size cs p = Inr p' \<Longrightarrow> max_size \<noteq> 0 \<Longrightarrow> length_m (buffer p) \<le> max_size
     \<Longrightarrow> length_m (buffer p') \<le> max_size"
proof (induction cs arbitrary: p)
  case Nil
  then show ?case by simp
next
  case (Cons c cs)
  then show ?case
    by (auto split: sum.splits dest: call_step_length_le)
qed

lemma run_length_ge:
  "run max_size cs p = Inr p' \<Longrightarrow> max_size \<noteq> 0 \<Longrightarrow> 1 \<le> length_m (buffer p)
     \<Longrightarrow> \<forall>c\<in>set cs. \<not> sets_length_zero max_size c \<Longrightarrow> 1 \<le> length_m (buffer p')"
proof (induction cs arbitrary: p)
  case Nil
  then show ?case by simp
next
  case (Cons c cs)
  then show ?case
    by (auto split: sum.splits dest: call_step_length_ge)
qed

text \<open>
  C2, amended.  With a capacity of at least 1, take any sequence of calls of the public
  operations that starts with Init and in which every call has defined behaviour (no
  access outside the array, no remainder by zero, no signed overflow, no conversion of a
  float out of range).  In the state it reaches the length is at most the capacity; and
  it is at least 1 when none of the calls after Init is \<^verbatim>\<open>SetLength(0)\<close> or a \<^verbatim>\<open>Setlength(x)\<close>
  that computes the length 0 (the integer part of \<open>x\<close> is 0, or the capacity is 1).
  Nothing is said about the states after a call with undefined behaviour.
\<close>

theorem length_invariant:
  assumes "max_size \<noteq> 0" and "run max_size (Call_Init # cs) p0 = Inr p"
  shows "length_m (buffer p) \<le> max_size
     \<and> ((\<forall>c\<in>set cs. \<not> sets_length_zero max_size c) \<longrightarrow> 1 \<le> length_m (buffer p))"
proof -
  let ?p1 = "p0\<lparr>buffer := Init max_size (buffer p0)\<rparr>"
  from assms(2) have r: "run max_size cs ?p1 = Inr p"
    by (simp add: on_buffer_def)
  have i: "length_m (buffer ?p1) = 1"
    by (simp add: Init_def Reset_def)
  have "(1::size_t) \<le> max_size"
    using assms(1) by (simp add: word_one_le_iff)
  with i have "length_m (buffer ?p1) \<le> max_size"
    by simp
  from run_length_le [OF r assms(1) this] have "length_m (buffer p) \<le> max_size" .
  moreover have "1 \<le> length_m (buffer p)" if "\<forall>c\<in>set cs. \<not> sets_length_zero max_size c"
    using run_length_ge [OF r assms(1) _ that] i by simp
  ultimately show ?thesis by blast
qed

theorem length_invariant_witness:
  "(4::size_t) \<noteq> 0
   \<and> run 4 [Call_Init, Call_Write (Finite 10), Call_SetLength 9, Call_Setlength (- 3 / 2), Call_Read]
        \<lparr>random_statics = (0, 0), speed_statics = (0, 0),
          buffer = \<lparr>frac_m = 0, write_ptr_m = 0, read_ptr_m = 0, length_m = 0, line_m = [0, 0, 0, 0]\<rparr>\<rparr>
      = Inr \<lparr>random_statics = (0, 0), speed_statics = (0, 0),
          buffer = \<lparr>frac_m = - 1 / 2, write_ptr_m = 1, read_ptr_m = 1, length_m = 3, line_m = [Finite 10, 0, 0, 0]\<rparr>\<rparr>
   \<and> \<not> sets_length_zero 4 (Call_Write (Finite 10)) \<and> \<not> sets_length_zero 4 (Call_SetLength 9)
   \<and> \<not> sets_length_zero 4 (Call_Setlength (- 3 / 2)) \<and> \<not> sets_length_zero 4 Call_Read
   \<and> length_m (buffer \<lparr>random_statics = (0, 0), speed_statics = (0, 0),
          buffer = \<lparr>frac_m = - 1 / 2, write_ptr_m = 1, read_ptr_m = 1, length_m = 3, line_m = [Finite 10, 0, 0, 0]\<rparr>\<rparr>) \<le> 4
   \<and> 1 \<le> length_m (buffer \<lparr>random_statics = (0, 0), speed_statics = (0, 0),
          buffer = \<lparr>frac_m = - 1 / 2, write_ptr_m = 1, read_ptr_m = 1, length_m = 3, line_m = [Finite 10, 0, 0, 0]\<rparr>\<rparr>)"
proof -
  have r: "run 4 [Call_Init, Call_Write (Finite 10), Call_SetLength 9, Call_Setlength (- 3 / 2), Call_Read]
        \<lparr>random_statics = (0, 0), speed_statics = (0, 0),
          buffer = \<lparr>frac_m = 0, write_ptr_m = 0, read_ptr_m = 0, length_m = 0, line_m = [0, 0, 0, 0]\<rparr>\<rparr>
      = Inr \<lparr>random_statics = (0, 0), speed_statics = (0, 0),
          buffer = \<lparr>frac_m = - 1 / 2, write_ptr_m = 1, read_ptr_m = 1, length_m = 3, line_m = [Finite 10, 0, 0, 0]\<rparr>\<rparr>"
    by (simp add: on_buffer_def Init_def Reset_def clear_line_4 Write_def Let_def word_le_nat_alt
        SetLength_def Setlength_def trunc_def int_ok_def Read_def line_at_def word_less_nat_alt
        unat_minus_1_size)
  have z: "\<forall>c\<in>set [Call_Write (Finite 10), Call_SetLength 9, Call_Setlength (- 3 / 2), Call_Read].
      \<not> sets_length_zero 4 c"
    by (simp add: trunc_def)
  have n: "(4::size_t) \<noteq> 0" by simp
  from length_invariant [OF n r] z n r show ?thesis by simp
qed

text \<open>A sequence that the theorem does not cover: after Init and four writes,
  \<^verbatim>\<open>Splice(1, 0, -1)\<close> passes its check and accesses \<^verbatim>\<open>line_[-1]\<close>.\<close>

lemma run_leaves_array:
  "run 4 [Call_Init, Call_Write (Finite 10), Call_Write (Finite 20), Call_Write (Finite 30),
          Call_Write (Finite 40), Call_Splice 1 0 (- 1)]
        \<lparr>random_statics = (0, 0), speed_statics = (0, 0),
          buffer = \<lparr>frac_m = 0, write_ptr_m = 0, read_ptr_m = 0, length_m = 0, line_m = [0, 0, 0, 0]\<rparr>\<rparr>
      = Inl OutOfBounds"
  by (simp add: on_buffer_def Init_def Reset_def clear_line_4 Write_def Let_def word_le_nat_alt
      Splice_def int_ok_def Splice_fade.simps scale_at_def)

text \<open>The claim as stated fails: after Init, \<^verbatim>\<open>SetLength(0)\<close> sets the length to 0.\<close>

theorem SetLength_zero_counterexample:
  "length_m (SetLength 4 0 (Init 4 \<lparr>frac_m = 0, write_ptr_m = 0, read_ptr_m = 0, length_m = 0, line_m = [0, 0, 0, 0::real]\<rparr>)) = 0
   \<and> \<not> 1 \<le> length_m (SetLength 4 0 (Init 4 \<lparr>frac_m = 0, write_ptr_m = 0, read_ptr_m = 0, length_m = 0, line_m = [0, 0, 0, 0::real]\<rparr>))"
  by (simp add: SetLength_def Init_def Reset_def word_le_nat_alt)

section \<open>Writing, then reading\<close>

lemma Write_fresh:
  assumes "Suc k < unat max_size" and "k < length l"
  shows "Write max_size x
           \<lparr>frac_m = f, write_ptr_m = of_nat k, read_ptr_m = r, length_m = of_nat k + 1, line_m = l\<rparr>
         = Inr \<lparr>frac_m = f, write_ptr_m = of_nat (Suc k), read_ptr_m = r,
                length_m = of_nat (Suc k) + 1, line_m = l[k := x]\<rparr>"
proof -
  have k: "unat (of_nat k :: size_t) = k"
    using assms(1) by (intro unat_of_nat_below [where m = max_size]) simp
  have nz: "max_size \<noteq> 0"
    using assms(1) by (auto simp: unat_gt_0 [symmetric] simp del: unat_gt_0)
  have m: "(of_nat (Suc k) :: size_t) mod max_size = of_nat (Suc k)"
    using assms(1) by (rule of_nat_mod_below)
  show ?thesis
    by (simp add: Write_def Let_def k nz assms(2) of_nat_inc m del: of_nat_Suc)
qed

lemma Writes_fresh:
  assumes "k + length xs < unat max_size" and "length l = unat max_size"
  shows "Writes max_size xs
           \<lparr>frac_m = f, write_ptr_m = of_nat k, read_ptr_m = r, length_m = of_nat k + 1, line_m = l\<rparr>
         = Inr \<lparr>frac_m = f, write_ptr_m = of_nat (k + length xs), read_ptr_m = r,
                length_m = of_nat (k + length xs) + 1,
                line_m = take k l @ xs @ drop (k + length xs) l\<rparr>"
  using assms
proof (induction xs arbitrary: k l)
  case Nil
  then show ?case by simp
next
  case (Cons x xs)
  have w: "Write max_size x
      \<lparr>frac_m = f, write_ptr_m = of_nat k, read_ptr_m = r, length_m = of_nat k + 1, line_m = l\<rparr>
    = Inr \<lparr>frac_m = f, write_ptr_m = of_nat (Suc k), read_ptr_m = r,
            length_m = of_nat (Suc k) + 1, line_m = l[k := x]\<rparr>"
    using Cons.prems by (intro Write_fresh) simp_all
  have ih: "Writes max_size xs
      \<lparr>frac_m = f, write_ptr_m = of_nat (Suc k), read_ptr_m = r,
        length_m = of_nat (Suc k) + 1, line_m = l[k := x]\<rparr>
    = Inr \<lparr>frac_m = f, write_ptr_m = of_nat (Suc k + length xs), read_ptr_m = r,
            length_m = of_nat (Suc k + length xs) + 1,
            line_m = take (Suc k) (l[k := x]) @ xs @ drop (Suc k + length xs) (l[k := x])\<rparr>"
    using Cons.prems by (intro Cons.IH) simp_all
  have "k < length l" using Cons.prems by simp
  then have t: "take (Suc k) (l[k := x]) = take k l @ [x]"
    by (simp add: take_Suc_conv_app_nth)
  show ?case
    unfolding Writes.simps w sum.case ih
    by (simp add: t)
qed

lemma Read_at:
  assumes "Suc k < unat (length_m s)" and "unat (length_m s) \<le> length (line_m s)"
    and "read_ptr_m s = of_nat k"
  shows "Read s = Inr (line_m s ! k, s\<lparr>read_ptr_m := of_nat (Suc k)\<rparr>)"
proof -
  have lt: "k < unat (length_m s)"
    using assms(1) by simp
  have nz: "length_m s \<noteq> 0"
    using assms(1) by (auto simp: unat_gt_0 [symmetric] simp del: unat_gt_0)
  have m: "(of_nat k :: size_t) mod length_m s = of_nat k"
    using lt by (rule of_nat_mod_below)
  have m': "(of_nat (Suc k) :: size_t) mod length_m s = of_nat (Suc k)"
    using assms(1) by (rule of_nat_mod_below)
  have k: "unat (of_nat k :: size_t) = k"
    using lt by (rule unat_of_nat_below)
  have "k < length (line_m s)"
    using lt assms(2) by simp
  then show ?thesis
    by (simp add: Read_def nz assms(3) m line_at_def k of_nat_inc m' del: of_nat_Suc)
qed

lemma Reads_in_order:
  assumes "k + n < unat (length_m s)" and "unat (length_m s) \<le> length (line_m s)"
    and "read_ptr_m s = of_nat k"
  shows "repeat_read Read n s = Inr (take n (drop k (line_m s)), s\<lparr>read_ptr_m := of_nat (k + n)\<rparr>)"
  using assms
proof (induction n arbitrary: k s)
  case 0
  then show ?case by simp
next
  case (Suc n)
  let ?s1 = "s\<lparr>read_ptr_m := of_nat (Suc k)\<rparr>"
  have r: "Read s = Inr (line_m s ! k, ?s1)"
    using Suc.prems by (intro Read_at) simp_all
  have ih: "repeat_read Read n ?s1
    = Inr (take n (drop (Suc k) (line_m ?s1)), ?s1\<lparr>read_ptr_m := of_nat (Suc k + n)\<rparr>)"
    using Suc.prems by (intro Suc.IH) simp_all
  have "k < length (line_m s)" using Suc.prems by simp
  then have "take (Suc n) (drop k (line_m s)) = line_m s ! k # take n (drop (Suc k) (line_m s))"
    by (simp flip: Cons_nth_drop_Suc)
  then show ?case
    unfolding repeat_read.simps r sum.case prod.case ih
    by simp
qed

text \<open>
  C3, amended.  For a list of \<open>N\<close> samples with \<open>N\<close> below the capacity: after Init, writing
  them succeeds and leaves the length \<open>N + 1\<close> and \<^verbatim>\<open>frac_ == 0\<close>; \<^verbatim>\<open>GetLength()\<close> then returns
  \<open>N + 1\<close> rounded to a float, which is \<open>N + 1\<close> itself when \<open>N < 2 ^ 24\<close>; and \<open>N\<close> calls of the
  plain \<^verbatim>\<open>Read()\<close> return the samples in the order they were written.
\<close>

theorem write_then_read:
  assumes "wf_buffer max_size s0" and "length xs < unat max_size"
  shows "\<exists>s s'. Writes max_size xs (Init max_size s0) = Inr s
           \<and> unat (length_m s) = length xs + 1 \<and> frac_m s = 0
           \<and> GetLength s = Finite (round_real (real (length xs) + 1))
           \<and> (length xs < 2 ^ 24 \<longrightarrow> GetLength s = Finite (real (length xs) + 1))
           \<and> repeat_read Read (length xs) s = Inr (xs, s')"
proof -
  let ?l = "replicate (unat max_size) (0::'a)"
  let ?s = "\<lparr>frac_m = 0, write_ptr_m = of_nat (0 + length xs), read_ptr_m = 0,
      length_m = of_nat (0 + length xs) + 1,
      line_m = take 0 ?l @ xs @ drop (0 + length xs) ?l\<rparr>"
  have i: "Init max_size s0 = \<lparr>frac_m = 0, write_ptr_m = of_nat 0, read_ptr_m = 0,
      length_m = of_nat 0 + 1, line_m = ?l\<rparr>"
    using assms(1) by (cases s0) (simp add: Init_def Reset_def clear_line_replicate wf_buffer_def)
  have "Writes max_size xs \<lparr>frac_m = 0, write_ptr_m = of_nat 0, read_ptr_m = 0,
      length_m = of_nat 0 + 1, line_m = ?l\<rparr> = Inr ?s"
    using assms(2) by (intro Writes_fresh) simp_all
  then have w: "Writes max_size xs (Init max_size s0) = Inr ?s"
    by (simp only: i)
  have u: "unat (length_m ?s) = Suc (length xs)"
    using unat_inc [OF of_nat_below [OF assms(2)]] unat_of_nat_below [OF assms(2)] by simp
  have f: "frac_m ?s = 0"
    by simp
  have "GetLength ?s = Finite (float_of_size (length_m ?s))"
    unfolding GetLength_def f by (rule fadd_float_of_size_0)
  then have g: "GetLength ?s = Finite (round_real (real (length xs) + 1))"
    by (simp only: float_of_size_def u) (simp add: add.commute)
  have e: "GetLength ?s = Finite (real (length xs) + 1)" if "length xs < 2 ^ 24"
  proof -
    from that have "Suc (length xs) \<le> 2 ^ 24"
      by (rule Suc_leI)
    then have "unat (length_m ?s) \<le> 2 ^ 24"
      by (simp only: u)
    then have "float_of_size (length_m ?s) = real (unat (length_m ?s))"
      by (rule float_of_size_exact)
    then have "float_of_size (length_m ?s) = real (length xs) + 1"
      unfolding u by simp
    with \<open>GetLength ?s = Finite (float_of_size (length_m ?s))\<close> show ?thesis
      by (simp only:)
  qed
  have "repeat_read Read (length xs) ?s
    = Inr (take (length xs) (drop 0 (line_m ?s)), ?s\<lparr>read_ptr_m := of_nat (0 + length xs)\<rparr>)"
    using assms(2) by (intro Reads_in_order) (simp_all only: u, simp_all)
  then have "repeat_read Read (length xs) ?s = Inr (xs, ?s\<lparr>read_ptr_m := of_nat (length xs)\<rparr>)"
    by simp
  with w g e u f show ?thesis
    by (intro exI [of _ ?s] exI [of _ "?s\<lparr>read_ptr_m := of_nat (length xs)\<rparr>"]) simp
qed

theorem write_then_read_witness:
  "wf_buffer 4 \<lparr>frac_m = 0, write_ptr_m = 3, read_ptr_m = 2, length_m = 0, line_m = [Finite 7, Finite 7, Finite 7, Finite 7]\<rparr>
   \<and> length [Finite 10, Finite 20, Finite 30] < unat (4::size_t)
   \<and> length [Finite 10, Finite 20, Finite 30] < 2 ^ 24
   \<and> (\<exists>s s'. Writes 4 [Finite 10, Finite 20, Finite 30] (Init 4 \<lparr>frac_m = 0, write_ptr_m = 3, read_ptr_m = 2, length_m = 0, line_m = [Finite 7, Finite 7, Finite 7, Finite 7]\<rparr>) = Inr s
           \<and> unat (length_m s) = length [Finite 10, Finite 20, Finite 30] + 1 \<and> frac_m s = 0
           \<and> GetLength s = Finite (round_real (real (length [Finite 10, Finite 20, Finite 30]) + 1))
           \<and> GetLength s = Finite (real (length [Finite 10, Finite 20, Finite 30]) + 1)
           \<and> repeat_read Read (length [Finite 10, Finite 20, Finite 30]) s = Inr ([Finite 10, Finite 20, Finite 30], s'))"
proof -
  have w: "wf_buffer 4 \<lparr>frac_m = 0, write_ptr_m = 3, read_ptr_m = 2, length_m = 0, line_m = [Finite 7, Finite 7, Finite 7, Finite 7]\<rparr>"
    by (simp add: wf_buffer_def)
  have l: "length [Finite 10, Finite 20, Finite 30] < unat (4::size_t)"
    by simp
  have k: "length [Finite 10, Finite 20, Finite 30] < 2 ^ 24"
    by simp
  from write_then_read [OF w l] w l k show ?thesis by blast
qed

text \<open>The claim as stated fails: after Init and one write, \<^verbatim>\<open>GetLength()\<close> is 2, not 1.\<close>

theorem GetLength_after_write_counterexample:
  "map_sum id GetLength (Writes 4 [Finite 10] (Init 4 \<lparr>frac_m = 0, write_ptr_m = 0, read_ptr_m = 0, length_m = 0, line_m = [Finite 0, Finite 0, Finite 0, Finite 0]\<rparr>))
     = Inr (Finite 2)"
  by (simp add: Init_def Reset_def clear_line_4 Write_def Let_def word_le_nat_alt GetLength_def
      float_of_size_def round_real_numeral round_float_numeral)

text \<open>Beyond \<open>2 ^ 24\<close> the float is not the length: 16777217 becomes 16777216.\<close>

lemma float_of_size_rounds: "float_of_size 16777217 = 16777216"
proof -
  have "round_real (real_of_int (2 ^ 23) * 2 powi 1) = real_of_int (2 ^ 23) * 2 powi 1"
    by (rule round_real_representable) simp_all
  then have f: "round_real 16777216 = 16777216"
    by simp
  have b: "\<bar>16777217 :: real\<bar> < 2 powi (1 + 24)"
    by simp
  have "ulp_exp (- 149) 16777217 \<le> 1"
    using b by (rule ulp_exp_below) simp
  moreover have "\<not> ulp_exp (- 149) 16777217 \<le> 0"
  proof
    assume a: "ulp_exp (- 149) 16777217 \<le> 0"
    then have "\<bar>16777217 :: real\<bar> < 2 powi (ulp_exp (- 149) 16777217 + 24)"
      by (intro ulp_exp_bound) simp
    also have "\<dots> \<le> 2 powi (0 + 24)"
      using a by (intro power_int_increasing) simp_all
    finally show False by simp
  qed
  ultimately have e: "ulp_exp (- 149) 16777217 = 1"
    by simp
  have "round_even (16777217 / 2) = 8388608"
  proof -
    have "\<lfloor>16777217 / 2 :: real\<rfloor> = 8388608"
      by simp
    then show ?thesis
      by (simp add: round_even_def Let_def)
  qed
  then have "round_real 16777217 = 16777216"
    by (simp add: round_real_def Let_def e)
  then show ?thesis
    by (simp add: float_of_size_def)
qed

section \<open>Reading at speed 1\<close>








text \<open>Where a difference of samples overflows, \<^verbatim>\<open>ReadSpeed(1.0)\<close> returns NaN, not the sample.\<close>

lemma ReadSpeed_one_overflow:
  "ReadSpeed 1 \<lparr>frac_m = 0, write_ptr_m = 0, read_ptr_m = 0, length_m = 4,
       line_m = [Finite 1, Finite (- (2 ^ 127)), Finite (2 ^ 127), Finite 0]\<rparr>
     = Inr (NaN, \<lparr>frac_m = 0, write_ptr_m = 0, read_ptr_m = 1, length_m = 4,
       line_m = [Finite 1, Finite (- (2 ^ 127)), Finite (2 ^ 127), Finite 0]\<rparr>)"
  by (simp add: ReadSpeed_def Let_def int_ok_def trunc_def line_at_def round_real_1 round_real_0
      float_of_int_exact fsub_def round_float_overflow inf_times_def)

section \<open>Reading at a negative speed\<close>

lemma ReadSpeed_cursor:
  assumes "ReadSpeed speed s = Inr (a, s')"
  shows "read_ptr_m s'
       = (read_ptr_m s + word_of_int \<lfloor>round_real (speed + frac_m s)\<rfloor>) mod length_m s
     \<and> read_ptr_m s' < length_m s'"
proof -
  from assms have nz: "length_m s \<noteq> 0"
    by (auto simp: ReadSpeed_def split: if_splits)
  from assms have "read_ptr_m s'
       = (read_ptr_m s + word_of_int \<lfloor>round_real (speed + frac_m s)\<rfloor>) mod length_m s"
    and "length_m s' = length_m s"
    by (auto simp: ReadSpeed_def Let_def split: if_splits sum.splits)
  with nz show ?thesis
    by (simp add: word_mod_lt)
qed

text \<open>
  C6.  On the buffer that Init and the writes 10, 20 leave with capacity 4 (length 3, read
  cursor 0, \<^verbatim>\<open>frac_ == 0\<close>), \<^verbatim>\<open>ReadSpeed(-1.0)\<close> returns 10 and leaves the read cursor at 0:
  the sum \<open>0 + (-1)\<close> is computed in \<^verbatim>\<open>size_t\<close>, where it is \<open>2 ^ 32 - 1\<close>, a multiple of 3,
  and the unsigned cursor is never below 0, so it is not set to \<open>length - 1 = 2\<close>.
\<close>

theorem ReadSpeed_negative_speed:
  "ReadSpeed (- 1) \<lparr>frac_m = 0, write_ptr_m = 2, read_ptr_m = 0, length_m = 3,
       line_m = [Finite 10, Finite 20, Finite 0, Finite 0]\<rparr>
     = Inr (Finite 10, \<lparr>frac_m = 0, write_ptr_m = 2, read_ptr_m = 0, length_m = 3,
       line_m = [Finite 10, Finite 20, Finite 0, Finite 0]\<rparr>)"
  by (simp add: ReadSpeed_def Let_def round_real_m1 floor_minus_one int_ok_def trunc_def
      float_of_int_def round_real_0 line_at_def fsub_def round_float_numeral round_float_0)

section \<open>The one-shot read\<close>

lemma ReadOnce_at_end:
  assumes "length_m s \<noteq> 0" and "read_ptr_m s = length_m s - 1"
    and "unat (length_m s) \<le> length (line_m s)"
  shows "ReadOnce s = Inr (line_m s ! unat (length_m s - 1), s)"
proof -
  have lt: "length_m s - 1 < length_m s"
    using assms(1) by (simp add: word_less_nat_alt unat_minus_one unat_gt_0)
  then have m: "(length_m s - 1) mod length_m s = length_m s - 1"
    by (simp add: mod_word_less)
  have "line_at (line_m s) (length_m s - 1) = Inr (line_m s ! unat (length_m s - 1))"
    using lt assms(3) by (rule line_at_below)
  then show ?thesis
    using lt assms(2) m by (cases s) (simp add: ReadOnce_def)
qed

lemma ReadOnce_inside:
  assumes "Suc k < unat (length_m s)" and "unat (length_m s) \<le> length (line_m s)"
    and "read_ptr_m s = of_nat k"
  shows "ReadOnce s = Inr (line_m s ! k, s\<lparr>read_ptr_m := of_nat (Suc k)\<rparr>)"
proof -
  have lt: "k < unat (length_m s)"
    using assms(1) by simp
  have nz: "length_m s \<noteq> 0"
    using assms(1) by (auto simp: unat_gt_0 [symmetric] simp del: unat_gt_0)
  have c: "(of_nat k :: size_t) < length_m s"
    using lt by (rule of_nat_below)
  have m: "(of_nat k :: size_t) mod length_m s = of_nat k"
    using lt by (rule of_nat_mod_below)
  have k: "unat (of_nat k :: size_t) = k"
    using lt by (rule unat_of_nat_below)
  have "unat (length_m s - 1) = unat (length_m s) - 1"
    using nz by (simp add: unat_minus_one)
  then have d: "(of_nat k :: size_t) < length_m s - 1"
    using assms(1) by (simp add: word_less_nat_alt k)
  have "k < length (line_m s)"
    using lt assms(2) by simp
  then show ?thesis
    by (simp add: ReadOnce_def assms(3) c m line_at_def k d of_nat_inc del: of_nat_Suc)
qed

lemma ReadOnce_in_order:
  assumes "k + n < unat (length_m s)" and "unat (length_m s) \<le> length (line_m s)"
    and "read_ptr_m s = of_nat k"
  shows "repeat_read ReadOnce n s
     = Inr (take n (drop k (line_m s)), s\<lparr>read_ptr_m := of_nat (k + n)\<rparr>)"
  using assms
proof (induction n arbitrary: k s)
  case 0
  then show ?case by simp
next
  case (Suc n)
  let ?s1 = "s\<lparr>read_ptr_m := of_nat (Suc k)\<rparr>"
  have r: "ReadOnce s = Inr (line_m s ! k, ?s1)"
    using Suc.prems by (intro ReadOnce_inside) simp_all
  have ih: "repeat_read ReadOnce n ?s1
    = Inr (take n (drop (Suc k) (line_m ?s1)), ?s1\<lparr>read_ptr_m := of_nat (Suc k + n)\<rparr>)"
    using Suc.prems by (intro Suc.IH) simp_all
  have "k < length (line_m s)" using Suc.prems by simp
  then have "take (Suc n) (drop k (line_m s)) = line_m s ! k # take n (drop (Suc k) (line_m s))"
    by (simp flip: Cons_nth_drop_Suc)
  then show ?case
    unfolding repeat_read.simps r sum.case prod.case ih
    by simp
qed

lemma repeat_read_add:
  "repeat_read rd (m + n) s =
     (case repeat_read rd m s of
        Inl e \<Rightarrow> Inl e
      | Inr (as, s1) \<Rightarrow>
          (case repeat_read rd n s1 of Inl e \<Rightarrow> Inl e | Inr (bs, s2) \<Rightarrow> Inr (as @ bs, s2)))"
  by (induction m arbitrary: s) (auto split: sum.splits)

lemma ReadOnce_stays:
  assumes "length_m s \<noteq> 0" and "read_ptr_m s = length_m s - 1"
    and "unat (length_m s) \<le> length (line_m s)"
  shows "repeat_read ReadOnce n s = Inr (replicate n (line_m s ! unat (length_m s - 1)), s)"
  using ReadOnce_at_end [OF assms]
  by (induction n) simp_all

text \<open>The whole stream of the one-shot read from cursor 0.\<close>

lemma ReadOnce_stream:
  assumes "length_m s \<noteq> 0" and "unat (length_m s) \<le> length (line_m s)"
    and "read_ptr_m s = 0"
  shows "repeat_read ReadOnce (unat (length_m s) - 1 + n) s
     = Inr (take (unat (length_m s) - 1) (line_m s)
              @ replicate n (line_m s ! (unat (length_m s) - 1)),
            s\<lparr>read_ptr_m := length_m s - 1\<rparr>)"
proof -
  let ?m = "unat (length_m s) - 1"
  let ?s1 = "s\<lparr>read_ptr_m := length_m s - 1\<rparr>"
  have pos: "0 < unat (length_m s)"
    using assms(1) by (simp add: unat_gt_0)
  have u: "unat (length_m s - 1) = ?m"
    using assms(1) by (simp add: unat_minus_one)
  have e: "(of_nat ?m :: size_t) = length_m s - 1"
    unfolding u [symmetric] by simp
  have "repeat_read ReadOnce ?m s
      = Inr (take ?m (drop 0 (line_m s)), s\<lparr>read_ptr_m := of_nat (0 + ?m)\<rparr>)"
    using pos assms(2,3) by (intro ReadOnce_in_order) simp_all
  then have a: "repeat_read ReadOnce ?m s = Inr (take ?m (line_m s), ?s1)"
    by (simp only: drop_0 add_0 e)
  have b: "repeat_read ReadOnce n ?s1 = Inr (replicate n (line_m ?s1 ! unat (length_m ?s1 - 1)), ?s1)"
    using assms(1,2) by (intro ReadOnce_stays) simp_all
  show ?thesis
    unfolding repeat_read_add a sum.case prod.case b
    by (simp add: u)
qed

text \<open>
  C1.  With capacity 4, Init and the writes 10, 20, 30, 40 leave length 4 and read cursor
  0; six calls of \<^verbatim>\<open>ReadOnce()\<close> then return 10, 20, 30, 40, 40, 40 and leave the read cursor
  at 3: at \<open>length - 1\<close> the cursor stays, and the call keeps returning the last sample
  of the loop, not 0.
\<close>

theorem ReadOnce_repeats_last:
  "Writes 4 [10, 20, 30, 40] (Init 4 \<lparr>frac_m = 0, write_ptr_m = 0, read_ptr_m = 0, length_m = 0, line_m = [0, 0, 0, 0::real]\<rparr>)
     = Inr \<lparr>frac_m = 0, write_ptr_m = 0, read_ptr_m = 0, length_m = 4, line_m = [10, 20, 30, 40]\<rparr>
   \<and> repeat_read ReadOnce 6 \<lparr>frac_m = 0, write_ptr_m = 0, read_ptr_m = 0, length_m = 4, line_m = [10, 20, 30, 40::real]\<rparr>
     = Inr ([10, 20, 30, 40, 40, 40],
            \<lparr>frac_m = 0, write_ptr_m = 0, read_ptr_m = 3, length_m = 4, line_m = [10, 20, 30, 40]\<rparr>)"
  by (simp add: Init_def Reset_def clear_line_4 Write_def Let_def word_le_nat_alt
      repeat_read_numeral ReadOnce_def line_at_def word_less_nat_alt)

section \<open>The guarded Splice\<close>

text \<open>When \<^verbatim>\<open>2*fadeLength\<close> is an \<^verbatim>\<open>int\<close> and one of the preconditions fails, that is
  \<open>2 * fadeLength \<ge> length\<close> or \<open>startPoint < 0\<close> or \<open>endPoint \<ge> length\<close>, the guarded Splice
  returns the buffer as it was.\<close>

lemma Splice_guard_fails:
  assumes "int_ok (2 * sint fadeLength)"
    and "2 * sint fadeLength \<ge> uint (length_m s) \<or> sint startPoint < 0 \<or> sint endPoint \<ge> uint (length_m s)"
  shows "Splice fadeLength startPoint endPoint s = Inr s"
proof -
  have "sint (length_m s) \<le> uint (length_m s)"
    by (simp add: sint_32)
  then have "\<not> (2 * sint fadeLength < sint (length_m s) \<and> sint startPoint \<ge> 0
              \<and> sint endPoint < sint (length_m s))"
    using assms(2) by linarith
  then show ?thesis
    using assms(1) by (auto simp: Splice_def)
qed

text \<open>
  C8.  On a buffer of length 4, \<^verbatim>\<open>Splice(1073741824, 0, 3)\<close> has \<open>2 * fadeLength \<ge> length\<close>, and
  the call is not a no-op: \<^verbatim>\<open>2*fadeLength\<close> overflows \<^verbatim>\<open>int\<close> in the check itself.
\<close>

theorem Splice_check_overflows:
  "uint (length_m \<lparr>frac_m = 0, write_ptr_m = 0, read_ptr_m = 0, length_m = 4,
       line_m = [Finite 10, Finite 20, Finite 30, Finite 40]\<rparr>) \<le> 2 * sint (1073741824 :: c_int)
   \<and> Splice 1073741824 0 3 \<lparr>frac_m = 0, write_ptr_m = 0, read_ptr_m = 0, length_m = 4,
       line_m = [Finite 10, Finite 20, Finite 30, Finite 40]\<rparr> = Inl IntOverflow"
  by (simp add: Splice_def int_ok_def)

lemma Splice_start_beyond:
  assumes "0 < sint fadeLength" and "2 * sint fadeLength < sint (length_m s)"
    and "int (length (line_m s)) \<le> sint startPoint" and "sint endPoint < sint (length_m s)"
  shows "Splice fadeLength startPoint endPoint s = Inl OutOfBounds"
proof -
  have "sint (length_m s) < 2 ^ 31"
    using sint_lt [of "length_m s"] by simp
  with assms(1,2) have o: "int_ok (2 * sint fadeLength)"
    by (simp add: int_ok_def)
  have p: "int_ok (sint startPoint)"
    using sint_lt [of startPoint] sint_ge [of startPoint] by (simp add: int_ok_def)
  have q: "0 \<le> sint startPoint"
    using assms(3) by (rule order_trans [rotated]) simp
  have "Splice_fade 0 (sint fadeLength) (sint startPoint) (sint endPoint) (line_m s)
      = Inl OutOfBounds"
    using assms(1,3) p by (subst Splice_fade.simps) (simp add: scale_at_def)
  then show ?thesis
    using assms(2,4) o q by (simp add: Splice_def)
qed

text \<open>
  C5.  On a buffer with capacity 4 and length 4, \<^verbatim>\<open>Splice(1, 4, 3)\<close> passes the precondition
  check and accesses \<^verbatim>\<open>line_[4]\<close>, and \<^verbatim>\<open>Splice(1, 0, -1)\<close> passes it and accesses \<^verbatim>\<open>line_[-1]\<close>:
  the check bounds neither \<open>startPoint\<close> from above nor \<open>endPoint\<close> from below.
\<close>

theorem Splice_out_of_bounds:
  "Splice 1 4 3 \<lparr>frac_m = 0, write_ptr_m = 0, read_ptr_m = 0, length_m = 4,
       line_m = [Finite 10, Finite 20, Finite 30, Finite 40]\<rparr>
     = Inl OutOfBounds
   \<and> Splice 1 0 (- 1) \<lparr>frac_m = 0, write_ptr_m = 0, read_ptr_m = 0, length_m = 4,
       line_m = [Finite 10, Finite 20, Finite 30, Finite 40]\<rparr>
     = Inl OutOfBounds"
  by (simp add: Splice_def int_ok_def Splice_fade.simps scale_at_def)

section \<open>Positions and lengths\<close>

text \<open>
  C9.  \<^verbatim>\<open>SetReadPosition(position)\<close> sets the read cursor to \<open>position\<close> when
  \<open>position \<ge> length\<close> and to \<open>length - 1\<close> otherwise, and changes nothing else.
\<close>

theorem SetReadPosition_literal:
  "SetReadPosition position s =
     s\<lparr>read_ptr_m := (if position \<ge> length_m s then position else length_m s - 1)\<rparr>"
  by (simp add: SetReadPosition_def Let_def)

text \<open>
  C10, amended.  With a capacity of at least 1: \<^verbatim>\<open>SetLength(n)\<close> sets the length to
  \<open>min n C\<close> and \<^verbatim>\<open>frac_\<close> to 0.  \<^verbatim>\<open>Setlength(x)\<close>, for \<open>x\<close> whose integer part is an
  \<^verbatim>\<open>int32_t\<close>, sets the length to the integer part of \<open>x\<close> (rounded towards zero, converted
  to \<^verbatim>\<open>size_t\<close>) capped at \<open>C - 1\<close>, and \<^verbatim>\<open>frac_\<close> to \<open>x\<close> minus that integer part, which is
  \<open>x - floor x\<close> for \<open>x \<ge> 0\<close>.
\<close>

theorem SetLength_caps:
  assumes "max_size \<noteq> 0" and "int_ok (trunc x)"
  shows "SetLength max_size n s = s\<lparr>frac_m := 0, length_m := min n max_size\<rparr>
     \<and> Setlength max_size x s
         = Inr (s\<lparr>frac_m := x - real_of_int (trunc x),
                  length_m := min (word_of_int (trunc x)) (max_size - 1)\<rparr>)
     \<and> (0 \<le> x \<longrightarrow> trunc x = \<lfloor>x\<rfloor>)"
  using assms
  by (simp add: SetLength_def Setlength_def Let_def min_cap trunc_nonneg min_def)

theorem SetLength_caps_witness:
  "(4::size_t) \<noteq> 0 \<and> int_ok (trunc (13 / 2)) \<and> 0 \<le> (13 / 2 :: real)
   \<and> SetLength 4 9 \<lparr>frac_m = 1 / 4, write_ptr_m = 0, read_ptr_m = 0, length_m = 1, line_m = [0, 0, 0, 0::real]\<rparr>
      = \<lparr>frac_m = 0, write_ptr_m = 0, read_ptr_m = 0, length_m = 4, line_m = [0, 0, 0, 0]\<rparr>
   \<and> Setlength 4 (13 / 2) \<lparr>frac_m = 1 / 4, write_ptr_m = 0, read_ptr_m = 0, length_m = 1, line_m = [0, 0, 0, 0::real]\<rparr>
      = Inr \<lparr>frac_m = 1 / 2, write_ptr_m = 0, read_ptr_m = 0, length_m = 3, line_m = [0, 0, 0, 0]\<rparr>
   \<and> trunc (13 / 2) = \<lfloor>13 / 2 :: real\<rfloor>"
proof -
  have t: "trunc (13 / 2) = 6"
    by (simp add: trunc_def)
  have a: "(4::size_t) \<noteq> 0" by simp
  have b: "int_ok (trunc (13 / 2))"
    by (simp add: t int_ok_def)
  from SetLength_caps [OF a b, of 9
      "\<lparr>frac_m = 1 / 4, write_ptr_m = 0, read_ptr_m = 0, length_m = 1, line_m = [0, 0, 0, 0::real]\<rparr>"]
  show ?thesis using a b by (simp add: t)
qed

text \<open>The claim as stated fails: for \<open>x = -1/2\<close> the code sets \<^verbatim>\<open>frac_\<close> to \<open>-1/2\<close>, and
  \<open>x - floor x\<close> is \<open>1/2\<close>.\<close>

theorem Setlength_negative_counterexample:
  "map_sum id frac_m (Setlength 4 (- 1 / 2) \<lparr>frac_m = 0, write_ptr_m = 0, read_ptr_m = 0, length_m = 1, line_m = [0, 0, 0, 0::real]\<rparr>)
     = Inr (- 1 / 2)
   \<and> (- 1 / 2 :: real) - real_of_int \<lfloor>- 1 / 2 :: real\<rfloor> = 1 / 2"
  by (simp add: Setlength_def trunc_def int_ok_def)

end
